theory Spec2Isabelle
  imports Main "HOL-Library.AList"
begin

section \<open>Strings: whitespace, splitting and lower-casing\<close>

text \<open>
  A character is a code point below 256 (header values reach the application decoded
  as Latin-1). \<open>isspace\<close> lists the code points below 256 that Python's \<open>str.split()\<close>
  treats as separators: tab, line feed, vertical tab, form feed, carriage return, the
  four separators 28 to 31, space, next line (133) and no-break space (160).
\<close>

definition isspace :: "char \<Rightarrow> bool" where
  "isspace c = (of_char c \<in> {9, 10, 11, 12, 13, 28, 29, 30, 31, 32, 133, 160 :: nat})"

text \<open>
  \<open>split_from w s\<close> scans \<open>s\<close> with the word \<open>w\<close> read so far: a separator closes a
  non-empty word, runs of separators yield no empty words. \<open>split\<close> is \<open>str.split()\<close>
  with no argument.
\<close>

fun split_from :: "string \<Rightarrow> string \<Rightarrow> string list" where
  "split_from w [] = (if w = [] then [] else [w])"
| "split_from w (c # cs) =
     (if isspace c then (if w = [] then split_from [] cs else w # split_from [] cs)
      else split_from (w @ [c]) cs)"

definition split :: "string \<Rightarrow> string list" where
  "split s = split_from [] s"

text \<open>
  \<open>str.lower()\<close> on code points below 256: the letters A to Z and the upper-case
  letters of Latin-1 (192 to 214, 216 to 222) move up by 32.
\<close>

definition lower_char :: "char \<Rightarrow> char" where
  "lower_char c =
     (let n = (of_char c :: nat)
      in if (65 \<le> n \<and> n \<le> 90) \<or> (192 \<le> n \<and> n \<le> 214) \<or> (216 \<le> n \<and> n \<le> 222)
         then char_of (n + 32) else c)"

definition lower :: "string \<Rightarrow> string" where
  "lower s = map lower_char s"

section \<open>Errors\<close>

text \<open>
  \<open>HTTPException status detail\<close> is the exception the handlers raise on purpose.
  \<open>ValueError\<close> is raised by \<open>PyObjectId.validate\<close>. \<open>OverflowError\<close> and
  \<open>InvalidDocument\<close> are raised by the driver when it cannot encode a value;
  \<open>WriteError\<close> is the store refusing an update. \<open>status_code\<close> is the status of the
  response: the framework answers an \<open>HTTPException\<close> with its own status, and every
  other exception leaves the application unhandled, which the server answers with 500.
\<close>

datatype error =
    HTTPException nat string
  | ValueError string
  | OverflowError string
  | InvalidDocument string
  | WriteError string

fun status_code :: "error \<Rightarrow> nat" where
  "status_code (HTTPException n d) = n"
| "status_code (ValueError m) = 500"
| "status_code (OverflowError m) = 500"
| "status_code (InvalidDocument m) = 500"
| "status_code (WriteError m) = 500"

section \<open>Auth\<close>

text \<open>
  \<open>require_admin\<close> of main.py. \<open>ADMIN_TOKEN\<close> is read from the environment when the
  module is loaded, so it is the first argument here. The header is optional
  (\<open>Header(None)\<close>); \<open>not authorization\<close> holds for an absent and for an empty header.
\<close>

definition require_admin :: "string \<Rightarrow> string option \<Rightarrow> error + bool" where
  "require_admin ADMIN_TOKEN authorization =
     (case authorization of
        None \<Rightarrow> Inl (HTTPException 401 ''Missing Authorization header'')
      | Some a \<Rightarrow>
          if a = [] then Inl (HTTPException 401 ''Missing Authorization header'')
          else
            let parts = split a
            in if length parts \<noteq> 2 \<or> lower (parts ! 0) \<noteq> ''bearer''
               then Inl (HTTPException 401 ''Invalid Authorization header'')
               else
                 let token = parts ! 1
                 in if token \<noteq> ADMIN_TOKEN
                    then Inl (HTTPException 403 ''Invalid token'')
                    else Inr True)"

section \<open>Identifier codec\<close>

text \<open>
  \<open>fromhex\<close> is \<open>bytes.fromhex\<close>: ASCII white space (tab, line feed, vertical tab, form
  feed, carriage return, space) is skipped before each byte, a byte is two hexadecimal
  digits in either case, and anything else is an error (\<open>None\<close>). The bytes are held as
  their rendering in lower-case hexadecimal digits, two per byte.
\<close>

definition ascii_space :: "char \<Rightarrow> bool" where
  "ascii_space c = (of_char c \<in> {9, 10, 11, 12, 13, 32 :: nat})"

definition ishex :: "char \<Rightarrow> bool" where
  "ishex c = (c \<in> set ''0123456789abcdefABCDEF'')"

fun fromhex :: "string \<Rightarrow> string option" where
  "fromhex [] = Some []"
| "fromhex [c] = (if ascii_space c then Some [] else None)"
| "fromhex (c # d # cs) =
     (if ascii_space c then fromhex (d # cs)
      else if ishex c \<and> ishex d
      then map_option (\<lambda>r. lower_char c # lower_char d # r) (fromhex cs)
      else None)"

text \<open>
  An \<open>ObjectId\<close> holds the bytes it was made from, as the lower-case hexadecimal digits
  that \<open>str\<close> gives. \<open>is_valid\<close> is \<open>ObjectId.is_valid\<close> on a string: the string has 24
  characters and \<open>bytes.fromhex\<close> parses it. \<open>PyObjectId_validate\<close> is
  \<open>PyObjectId.validate\<close> of main.py on a string argument (the path parameter \<open>doc_id\<close>
  is always a string, so the \<open>isinstance\<close> branch is not reached); it raises
  \<open>ValueError\<close>, not an \<open>HTTPException\<close>.
\<close>

datatype ObjectId = ObjectId string

fun str_oid :: "ObjectId \<Rightarrow> string" where
  "str_oid (ObjectId h) = h"

definition is_valid :: "string \<Rightarrow> bool" where
  "is_valid v = (length v = 24 \<and> fromhex v \<noteq> None)"

definition PyObjectId_validate :: "string \<Rightarrow> error + ObjectId" where
  "PyObjectId_validate v =
     (if \<not> is_valid v then Inl (ValueError ''Invalid ObjectId'')
      else case fromhex v of
             None \<Rightarrow> Inl (ValueError ''Invalid ObjectId'')
           | Some h \<Rightarrow> Inr (ObjectId h))"

text \<open>
  The identifiers of twelve bytes, which are those the store assigns: their string is
  24 lower-case hexadecimal digits and reads back as itself.
\<close>

definition canonical :: "ObjectId \<Rightarrow> bool" where
  "canonical oid = (length (str_oid oid) = 24 \<and> fromhex (str_oid oid) = Some (str_oid oid))"

section \<open>Values and request models\<close>

text \<open>
  \<open>pyvalue\<close> is what a \<open>Dict[str, Any]\<close> decoded from a JSON body can hold, and the
  \<open>datetime\<close> that \<open>update\<close> adds (as a count of time units). Numbers are the
  integers. A dictionary is the list of its items in insertion order, looked up with
  \<open>map_of\<close>; \<open>d[k] = v\<close> is \<open>AList.update k v d\<close> (the value is replaced in place, or the
  item is added at the end) and \<open>d.pop(k)\<close> leaves \<open>AList.delete k d\<close>.
\<close>

datatype pyvalue =
    PNone
  | PBool bool
  | PInt int
  | PStr string
  | PList "pyvalue list"
  | PDict "(string \<times> pyvalue) list"
  | PDatetime int

type_synonym dict = "(string \<times> pyvalue) list"

text \<open>
  The request models of main.py, field by field: a field with no default is
  \<open>Required\<close>, \<open>Optional[T] = None\<close> is \<open>Optional\<close>, and a field with another default
  carries it.
\<close>

datatype ftype = TStr | TBool | TInt | TList ftype | TDict

datatype field = Required ftype | Optional ftype | Default ftype pyvalue

type_synonym model = "(string \<times> field) list"

definition Setting :: model where
  "Setting =
     [(''logo_url'', Optional TStr),
      (''categories'', Optional (TList TStr)),
      (''theme'', Default TStr (PStr ''orange-black''))]"

definition AboutContent :: model where
  "AboutContent =
     [(''history'', Optional TStr),
      (''timeline'', Optional (TList TDict)),
      (''team'', Optional (TList TDict))]"

definition NewsItem :: model where
  "NewsItem =
     [(''title'', Required TStr),
      (''content'', Required TStr),
      (''image_url'', Optional TStr),
      (''date'', Optional TStr),
      (''featured'', Default TBool (PBool False)),
      (''order'', Optional TInt)]"

definition Film :: model where
  "Film =
     [(''title'', Required TStr),
      (''poster_url'', Optional TStr),
      (''length_min'', Optional TInt),
      (''release_date'', Optional TStr),
      (''fsk'', Optional TStr),
      (''description'', Optional TStr),
      (''trailer_url'', Optional TStr),
      (''cast'', Optional (TList TStr)),
      (''crew'', Optional (TList TStr)),
      (''exclusive'', Default TBool (PBool False)),
      (''stream_url'', Optional TStr)]"

definition ProductionEntry :: model where
  "ProductionEntry =
     [(''phase'', Required TStr),
      (''text'', Optional TStr),
      (''images'', Optional (TList TStr)),
      (''videos'', Optional (TList TStr)),
      (''order'', Optional TInt)]"

definition Partner :: model where
  "Partner =
     [(''name'', Required TStr),
      (''logo_url'', Optional TStr),
      (''description'', Optional TStr),
      (''url'', Optional TStr)]"

definition Application :: model where
  "Application =
     [(''name'', Required TStr),
      (''email'', Required TStr),
      (''role'', Required TStr),
      (''message'', Optional TStr),
      (''attachments'', Optional (TList TStr))]"

definition COLLECTIONS :: "(string \<times> model) list" where
  "COLLECTIONS =
     [(''setting'', Setting),
      (''about'', AboutContent),
      (''news'', NewsItem),
      (''film'', Film),
      (''production'', ProductionEntry),
      (''partner'', Partner),
      (''application'', Application)]"


fun default_fields :: "model \<Rightarrow> (string \<times> pyvalue) list" where
  "default_fields [] = []"
| "default_fields ((n, Default t v) # fs) = (n, v) # default_fields fs"
| "default_fields ((n, f) # fs) = default_fields fs"

section \<open>Document store\<close>

text \<open>
  Modelled from the spec: database.py, which creates \<open>db\<close> and defines
  \<open>create_document\<close> and \<open>get_documents\<close>, is not among the sources. The store follows
  the spec's Document Store Adapter and its data model: a collection is the sequence of
  its records in insertion order; every stored record has a store-assigned identifier
  that never changes, kept here beside the record's fields; \<open>find_one\<close>, \<open>update_one\<close>
  and \<open>delete_one\<close> are the primitives main.py calls on \<open>db[name]\<close> with the filter
  \<open>{"_id": oid}\<close>, each acting on the first record with that identifier.
\<close>

datatype document = Document (ident: ObjectId) (fields: dict)

type_synonym database = "string \<Rightarrow> document list"

definition find_one :: "document list \<Rightarrow> ObjectId \<Rightarrow> document option" where
  "find_one docs oid = find (\<lambda>d. ident d = oid) docs"

subsection \<open>Encoding a value\<close>

text \<open>
  The driver encodes the update before it is sent. An integer must fit in eight bytes
  and no key may hold the NUL character; the first value that cannot be encoded, in
  document order, raises.
\<close>

fun encode_error :: "pyvalue \<Rightarrow> error option"
  and encode_error_list :: "pyvalue list \<Rightarrow> error option"
  and encode_error_dict :: "(string \<times> pyvalue) list \<Rightarrow> error option" where
  "encode_error PNone = None"
| "encode_error (PBool b) = None"
| "encode_error (PInt n) =
     (if - (2 ^ 63) \<le> n \<and> n < 2 ^ 63 then None
      else Some (OverflowError ''MongoDB can only handle up to 8-byte ints''))"
| "encode_error (PStr s) = None"
| "encode_error (PList xs) = encode_error_list xs"
| "encode_error (PDict kvs) = encode_error_dict kvs"
| "encode_error (PDatetime t) = None"
| "encode_error_list [] = None"
| "encode_error_list (x # xs) =
     (case encode_error x of Some e \<Rightarrow> Some e | None \<Rightarrow> encode_error_list xs)"
| "encode_error_dict [] = None"
| "encode_error_dict ((k, v) # kvs) =
     (if CHR 0x00 \<in> set k
      then Some (InvalidDocument ''Key names must not contain the NULL byte'')
      else case encode_error v of Some e \<Rightarrow> Some e | None \<Rightarrow> encode_error_dict kvs)"

subsection \<open>The paths of a \<open>$set\<close>\<close>

text \<open>
  A key of the \<open>$set\<close> document is a path: its components are the pieces between the
  dots. \<open>components\<close> is \<open>k.split(".")\<close>, which keeps empty pieces. A path with an empty
  component, or with a component that starts with \<open>$\<close>, is refused.
\<close>

fun pieces :: "string \<Rightarrow> string \<Rightarrow> string list" where
  "pieces w [] = [w]"
| "pieces w (c # cs) = (if c = CHR ''.'' then w # pieces [] cs else pieces (w @ [c]) cs)"

definition components :: "string \<Rightarrow> string list" where
  "components k = pieces [] k"

definition component_ok :: "string \<Rightarrow> bool" where
  "component_ok c = (c \<noteq> [] \<and> hd c \<noteq> CHR ''$'')"

text \<open>
  The paths of one update are gathered in a tree: a leaf holds the value to set, an
  inner node the components that continue below it. Two paths of which one continues
  the other (or equals it) conflict, and the update is refused.
\<close>

datatype update_node = Leaf pyvalue | Node "(string \<times> update_node) list"

fun insert_path :: "string list \<Rightarrow> pyvalue \<Rightarrow> update_node option \<Rightarrow> error + update_node" where
  "insert_path [] v None = Inr (Leaf v)"
| "insert_path [] v (Some t) = Inl (WriteError ''conflicting update paths'')"
| "insert_path (c # cs) v None =
     (case insert_path cs v None of Inl e \<Rightarrow> Inl e | Inr t \<Rightarrow> Inr (Node [(c, t)]))"
| "insert_path (c # cs) v (Some (Leaf w)) = Inl (WriteError ''conflicting update paths'')"
| "insert_path (c # cs) v (Some (Node kids)) =
     (case insert_path cs v (map_of kids c) of
        Inl e \<Rightarrow> Inl e
      | Inr t \<Rightarrow> Inr (Node (AList.update c t kids)))"

fun build :: "dict \<Rightarrow> update_node option \<Rightarrow> error + update_node option" where
  "build [] t = Inr t"
| "build ((k, v) # kvs) t =
     (if \<not> list_all component_ok (components k)
      then Inl (WriteError ''invalid update path'')
      else case insert_path (components k) v t of
             Inl e \<Rightarrow> Inl e
           | Inr t' \<Rightarrow> build kvs (Some t'))"

subsection \<open>Applying a \<open>$set\<close>\<close>

text \<open>
  A component that names an element of an array is a decimal numeral without leading
  zeros: \<open>index_of\<close> reads it.
\<close>

definition digit :: "nat \<Rightarrow> char" where
  "digit n = ''0123456789'' ! n"

fun decimal :: "nat \<Rightarrow> string" where
  "decimal n = (if n < 10 then [digit n] else decimal (n div 10) @ [digit (n mod 10)])"

declare decimal.simps [simp del]

definition isdigit :: "char \<Rightarrow> bool" where
  "isdigit c = (c \<in> set ''0123456789'')"

definition number :: "string \<Rightarrow> nat" where
  "number k = foldl (\<lambda>n c. 10 * n + (of_char c - 48)) 0 k"

definition index_of :: "string \<Rightarrow> nat option" where
  "index_of k =
     (if k \<noteq> [] \<and> list_all isdigit k \<and> decimal (number k) = k then Some (number k) else None)"

text \<open>
  \<open>apply_node t e\<close> is the value a field gets from the tree \<open>t\<close> when it holds \<open>e\<close>
  (\<open>None\<close>: the field is missing). A leaf replaces the value. Below an inner node, a
  missing field becomes a new embedded document; in an embedded document each
  component is a field name, set in place or added at the end; in an array each
  component must be an index, an index past the end fills the gap with nulls (no
  further than 1500000 places); any other value cannot take a field, and the update is
  refused.
\<close>

fun apply_node :: "update_node \<Rightarrow> pyvalue option \<Rightarrow> error + pyvalue"
  and apply_kids :: "(string \<times> update_node) list \<Rightarrow> dict \<Rightarrow> error + dict"
  and apply_items :: "(string \<times> update_node) list \<Rightarrow> pyvalue list \<Rightarrow> error + pyvalue list" where
  "apply_node (Leaf v) e = Inr v"
| "apply_node (Node kids) None =
     (case apply_kids kids [] of Inl e \<Rightarrow> Inl e | Inr al \<Rightarrow> Inr (PDict al))"
| "apply_node (Node kids) (Some (PDict al)) =
     (case apply_kids kids al of Inl e \<Rightarrow> Inl e | Inr al' \<Rightarrow> Inr (PDict al'))"
| "apply_node (Node kids) (Some (PList xs)) =
     (case apply_items kids xs of Inl e \<Rightarrow> Inl e | Inr xs' \<Rightarrow> Inr (PList xs'))"
| "apply_node (Node kids) (Some PNone) = Inl (WriteError ''cannot create field in element'')"
| "apply_node (Node kids) (Some (PBool b)) = Inl (WriteError ''cannot create field in element'')"
| "apply_node (Node kids) (Some (PInt n)) = Inl (WriteError ''cannot create field in element'')"
| "apply_node (Node kids) (Some (PStr s)) = Inl (WriteError ''cannot create field in element'')"
| "apply_node (Node kids) (Some (PDatetime t)) = Inl (WriteError ''cannot create field in element'')"
| "apply_kids [] al = Inr al"
| "apply_kids ((k, t) # kids) al =
     (case apply_node t (map_of al k) of
        Inl e \<Rightarrow> Inl e
      | Inr v \<Rightarrow> apply_kids kids (AList.update k v al))"
| "apply_items [] xs = Inr xs"
| "apply_items ((k, t) # kids) xs =
     (case index_of k of
        None \<Rightarrow> Inl (WriteError ''cannot create field in element'')
      | Some n \<Rightarrow>
          if n < length xs then
            (case apply_node t (Some (xs ! n)) of
               Inl e \<Rightarrow> Inl e
             | Inr v \<Rightarrow> apply_items kids (xs[n := v]))
          else if 1500000 < n - length xs then Inl (WriteError ''cannot backfill array'')
          else
            (case apply_node t None of
               Inl e \<Rightarrow> Inl e
             | Inr v \<Rightarrow> apply_items kids (xs @ replicate (n - length xs) PNone @ [v])))"

text \<open>
  At the top the tree is applied to the fields of the record. The identifier is
  immutable: a path that starts at \<open>_id\<close> is refused (no value of a request body is an
  \<open>ObjectId\<close>, so it never equals the stored one).
\<close>

fun apply_update :: "update_node \<Rightarrow> dict \<Rightarrow> error + dict" where
  "apply_update (Leaf v) f = Inl (WriteError ''invalid update path'')"
| "apply_update (Node kids) f =
     (if map_of kids ''_id'' \<noteq> None then Inl (WriteError ''immutable field _id'')
      else apply_kids kids f)"

text \<open>
  \<open>update_one docs oid s\<close> is \<open>update_one({"_id": oid}, {"$set": s})\<close>: the update is
  encoded, its paths are gathered, and the first record with the identifier is
  changed; the result is the matched count with the new contents.
\<close>

fun update_first :: "document list \<Rightarrow> ObjectId \<Rightarrow> update_node \<Rightarrow> error + nat \<times> document list" where
  "update_first [] oid t = Inr (0, [])"
| "update_first (d # ds) oid t =
     (if ident d = oid then
        (case apply_update t (fields d) of
           Inl e \<Rightarrow> Inl e
         | Inr f \<Rightarrow> Inr (1, Document oid f # ds))
      else
        (case update_first ds oid t of
           Inl e \<Rightarrow> Inl e
         | Inr (n, ds') \<Rightarrow> Inr (n, d # ds')))"

definition update_one :: "document list \<Rightarrow> ObjectId \<Rightarrow> dict \<Rightarrow> error + nat \<times> document list" where
  "update_one docs oid s =
     (case encode_error_dict s of
        Some e \<Rightarrow> Inl e
      | None \<Rightarrow>
          (case build s None of
             Inl e \<Rightarrow> Inl e
           | Inr None \<Rightarrow> Inr (if find_one docs oid = None then 0 else 1, docs)
           | Inr (Some t) \<Rightarrow> update_first docs oid t))"

text \<open>\<open>delete_one docs oid\<close>: the deleted count and the contents left.\<close>

fun delete_one :: "document list \<Rightarrow> ObjectId \<Rightarrow> nat \<times> document list" where
  "delete_one [] oid = (0, [])"
| "delete_one (d # ds) oid =
     (if ident d = oid then (1, ds)
      else (case delete_one ds oid of (n, ds') \<Rightarrow> (n, d # ds')))"

text \<open>
  Modelled from the spec: \<open>create_document\<close> is defined in the missing database.py.
  Spec: "create(collection, record) -> id: assigns a new identifier; does not
  deduplicate". The identifier the store assigns is the argument \<open>new_id\<close> (the store
  chooses it, not the caller); the record is appended with it and its rendering is
  returned.
\<close>

definition create_document :: "string \<Rightarrow> dict \<Rightarrow> ObjectId \<Rightarrow> database \<Rightarrow> string \<times> database" where
  "create_document collection_name data new_id db =
     (str_oid new_id,
      db(collection_name := db collection_name @ [Document new_id (AList.delete ''_id'' data)]))"

text \<open>
  Modelled from the spec: \<open>get_documents\<close> is defined in the missing database.py.
  Spec: "list(collection, limit): returns up to limit records in the store's natural
  (insertion) order; no filtering".
\<close>

definition get_documents :: "string \<Rightarrow> int \<Rightarrow> database \<Rightarrow> document list" where
  "get_documents collection_name limit db = take (nat limit) (db collection_name)"

section \<open>Handlers\<close>

text \<open>
  \<open>to_obj\<close> of main.py, on what \<open>find_one\<close> returns: \<open>None\<close> is returned as it is (the
  \<open>not doc\<close> branch; a record read from the store always has its \<open>_id\<close> and so is never
  empty); otherwise the key \<open>_id\<close> is removed and \<open>id\<close> is set to the identifier's string,
  replacing a field \<open>id\<close> of the record if there is one.
\<close>

fun to_obj :: "document option \<Rightarrow> dict option" where
  "to_obj None = None"
| "to_obj (Some d) =
     Some (AList.update ''id'' (PStr (str_oid (ident d))) (AList.delete ''_id'' (fields d)))"

text \<open>\<open>get_collection\<close>: the name is looked up in \<open>COLLECTIONS\<close> before \<open>db\<close> is touched.\<close>

definition get_collection :: "string \<Rightarrow> database \<Rightarrow> error + document list" where
  "get_collection name db =
     (if map_of COLLECTIONS name = None
      then Inl (HTTPException 404 ''Unknown collection'')
      else Inr (db name))"

definition list_documents :: "string \<Rightarrow> int \<Rightarrow> database \<Rightarrow> error + dict option list" where
  "list_documents collection limit db =
     (case get_collection collection db of
        Inl e \<Rightarrow> Inl e
      | Inr coll \<Rightarrow> Inr (map (\<lambda>i. to_obj (Some i)) (get_documents collection limit db)))"

definition get_document :: "string \<Rightarrow> string \<Rightarrow> database \<Rightarrow> error + dict option" where
  "get_document collection doc_id db =
     (case get_collection collection db of
        Inl e \<Rightarrow> Inl e
      | Inr coll \<Rightarrow>
          (case PyObjectId_validate doc_id of
             Inl e \<Rightarrow> Inl e
           | Inr oid \<Rightarrow>
               (case find_one coll oid of
                  None \<Rightarrow> Inl (HTTPException 404 ''Not found'')
                | Some doc \<Rightarrow> Inr (to_obj (Some doc)))))"

text \<open>
  The three admin handlers. The dependency \<open>Depends(require_admin)\<close> is resolved before
  the body of the handler runs, so its exception is the answer when it raises. Each
  handler returns its result (or the exception raised) with the store it leaves.
  \<open>new_id\<close> is the identifier the store assigns on this call, \<open>now\<close> is what
  \<open>datetime.now(timezone.utc)\<close> reads on this call.
\<close>

definition create ::
  "string \<Rightarrow> string option \<Rightarrow> string \<Rightarrow> dict \<Rightarrow> ObjectId \<Rightarrow> database \<Rightarrow> (error + dict) \<times> database" where
  "create ADMIN_TOKEN authorization collection payload new_id db =
     (case require_admin ADMIN_TOKEN authorization of
        Inl e \<Rightarrow> (Inl e, db)
      | Inr ok \<Rightarrow>
          (case get_collection collection db of
             Inl e \<Rightarrow> (Inl e, db)
           | Inr coll \<Rightarrow>
               (case create_document collection payload new_id db of
                  (new, db') \<Rightarrow> (Inr [(''id'', PStr new)], db'))))"

definition update ::
  "string \<Rightarrow> string option \<Rightarrow> string \<Rightarrow> string \<Rightarrow> dict \<Rightarrow> int \<Rightarrow> database
     \<Rightarrow> (error + dict option) \<times> database" where
  "update ADMIN_TOKEN authorization collection doc_id payload now db =
     (case require_admin ADMIN_TOKEN authorization of
        Inl e \<Rightarrow> (Inl e, db)
      | Inr ok \<Rightarrow>
          (case get_collection collection db of
             Inl e \<Rightarrow> (Inl e, db)
           | Inr coll \<Rightarrow>
               (case PyObjectId_validate doc_id of
                  Inl e \<Rightarrow> (Inl e, db)
                | Inr oid \<Rightarrow>
                    (case update_one coll oid (AList.update ''updated_at'' (PDatetime now) payload) of
                       Inl e \<Rightarrow> (Inl e, db)
                     | Inr (matched_count, coll') \<Rightarrow>
                         if matched_count = 0
                         then (Inl (HTTPException 404 ''Not found''), db(collection := coll'))
                         else (Inr (to_obj (find_one coll' oid)), db(collection := coll'))))))"

definition delete ::
  "string \<Rightarrow> string option \<Rightarrow> string \<Rightarrow> string \<Rightarrow> database \<Rightarrow> (error + dict) \<times> database" where
  "delete ADMIN_TOKEN authorization collection doc_id db =
     (case require_admin ADMIN_TOKEN authorization of
        Inl e \<Rightarrow> (Inl e, db)
      | Inr ok \<Rightarrow>
          (case get_collection collection db of
             Inl e \<Rightarrow> (Inl e, db)
           | Inr coll \<Rightarrow>
               (case PyObjectId_validate doc_id of
                  Inl e \<Rightarrow> (Inl e, db)
                | Inr oid \<Rightarrow>
                    (case delete_one coll oid of
                       (deleted_count, coll') \<Rightarrow>
                         if deleted_count = 0
                         then (Inl (HTTPException 404 ''Not found''), db(collection := coll'))
                         else (Inr [(''status'', PStr ''deleted''), (''id'', PStr doc_id)],
                               db(collection := coll'))))))"

section \<open>Routes\<close>

text \<open>
  The routes main.py registers under /api: a request is its HTTP verb, the collection
  name, the identifier segment when the path has one, the Authorization header, the
  JSON body and the \<open>limit\<close> query parameter (100 when not given). \<open>update\<close> is
  registered twice, by \<open>@app.put\<close> and by \<open>@app.patch\<close>. A path that is registered,
  asked with a verb that is not, is answered 405 by the framework.
\<close>

datatype verb = GET | POST | PUT | PATCH | DELETE

datatype request = Request verb "string" "string option" "string option" dict int

datatype response = Json "dict option" | JsonList "dict option list"

fun answer :: "('a \<Rightarrow> response) \<Rightarrow> (error + 'a) \<times> database \<Rightarrow> (error + response) \<times> database" where
  "answer f (Inl e, db) = (Inl e, db)"
| "answer f (Inr r, db) = (Inr (f r), db)"

fun serve :: "string \<Rightarrow> int \<Rightarrow> ObjectId \<Rightarrow> request \<Rightarrow> database \<Rightarrow> (error + response) \<times> database" where
  "serve tok now new_id (Request GET c None a p l) db = answer JsonList (list_documents c l db, db)"
| "serve tok now new_id (Request GET c (Some i) a p l) db = answer Json (get_document c i db, db)"
| "serve tok now new_id (Request POST c None a p l) db = answer (\<lambda>r. Json (Some r)) (create tok a c p new_id db)"
| "serve tok now new_id (Request PUT c (Some i) a p l) db = answer Json (update tok a c i p now db)"
| "serve tok now new_id (Request PATCH c (Some i) a p l) db = answer Json (update tok a c i p now db)"
| "serve tok now new_id (Request DELETE c (Some i) a p l) db = answer (\<lambda>r. Json (Some r)) (delete tok a c i db)"
| "serve tok now new_id (Request m c i a p l) db = (Inl (HTTPException 405 ''Method Not Allowed''), db)"

text \<open>
  The verb and path shapes that main.py registers: GET and POST on /api/{collection},
  GET, PUT, PATCH and DELETE on /api/{collection}/{doc_id}; and the verbs whose
  handler depends on \<open>require_admin\<close>.
\<close>

fun registered :: "verb \<Rightarrow> string option \<Rightarrow> bool" where
  "registered GET i = True"
| "registered POST i = (i = None)"
| "registered PUT i = (i \<noteq> None)"
| "registered PATCH i = (i \<noteq> None)"
| "registered DELETE i = (i \<noteq> None)"

fun admin_only :: "verb \<Rightarrow> bool" where
  "admin_only GET = False"
| "admin_only POST = True"
| "admin_only PUT = True"
| "admin_only PATCH = True"
| "admin_only DELETE = True"

section \<open>Plain payloads\<close>

text \<open>
  A plain field name is a whole top-level field of a record: it is not empty, has no
  dot, does not start with \<open>$\<close> and is not the internal \<open>_id\<close>. A plain payload is a
  dictionary (no key twice) of plain field names whose values the driver can encode.
\<close>

definition plain_key :: "string \<Rightarrow> bool" where
  "plain_key k = (k \<noteq> [] \<and> CHR ''.'' \<notin> set k \<and> hd k \<noteq> CHR ''$'' \<and> k \<noteq> ''_id'')"

definition plain_payload :: "dict \<Rightarrow> bool" where
  "plain_payload p =
     (list_all plain_key (map fst p) \<and> distinct (map fst p) \<and> encode_error_dict p = None)"

section \<open>Relations between updates\<close>

text \<open>
  Two trees have the same shape when they hold the same paths (the values at the
  leaves apart); a tree is well formed when no node names a component twice.
\<close>

fun same_shape :: "update_node \<Rightarrow> update_node \<Rightarrow> bool"
  and same_kids :: "(string \<times> update_node) list \<Rightarrow> (string \<times> update_node) list \<Rightarrow> bool" where
  "same_shape (Leaf v) (Leaf w) = True"
| "same_shape (Node ks) (Node ks') = same_kids ks ks'"
| "same_shape (Leaf v) (Node ks') = False"
| "same_shape (Node ks) (Leaf w) = False"
| "same_kids [] [] = True"
| "same_kids ((k, t) # ks) ((k', t') # ks') = (k = k' \<and> same_shape t t' \<and> same_kids ks ks')"
| "same_kids [] (x # ks') = False"
| "same_kids (x # ks) [] = False"

fun wf_node :: "update_node \<Rightarrow> bool"
  and wf_kids :: "(string \<times> update_node) list \<Rightarrow> bool" where
  "wf_node (Leaf v) = True"
| "wf_node (Node ks) = (distinct (map fst ks) \<and> wf_kids ks)"
| "wf_kids [] = True"
| "wf_kids ((k, t) # ks) = (wf_node t \<and> wf_kids ks)"

text \<open>The tree of a payload of plain field names: one leaf for each item.\<close>

definition leaves :: "dict \<Rightarrow> (string \<times> update_node) list" where
  "leaves p = map (\<lambda>kv. (fst kv, Leaf (snd kv))) p"

section \<open>Properties of the string functions\<close>

lemma split_from_word:
  "\<forall>c \<in> set t. \<not> isspace c \<Longrightarrow> split_from w (t @ r) = split_from (w @ t) r"
  by (induction t arbitrary: w) auto

lemma split_from_spaces:
  "\<forall>c \<in> set s. isspace c \<Longrightarrow> split_from [] (s @ r) = split_from [] r"
  by (induction s) auto

lemma split_from_sep:
  "\<forall>c \<in> set s. isspace c \<Longrightarrow> s \<noteq> [] \<Longrightarrow> w \<noteq> [] \<Longrightarrow>
   split_from w (s @ r) = w # split_from [] r"
  by (cases s) (auto simp: split_from_spaces)

lemma split_from_end:
  "\<forall>c \<in> set s. isspace c \<Longrightarrow> w \<noteq> [] \<Longrightarrow> split_from w s = [w]"
  using split_from_sep [of s w "[]"] by (cases s) auto

lemma split_two:
  assumes "\<forall>c \<in> set a. \<not> isspace c" "a \<noteq> []" "\<forall>c \<in> set b. \<not> isspace c" "b \<noteq> []"
    and "\<forall>c \<in> set s0. isspace c" "\<forall>c \<in> set s1. isspace c" "s1 \<noteq> []" "\<forall>c \<in> set s2. isspace c"
  shows "split (s0 @ a @ s1 @ b @ s2) = [a, b]"
proof -
  have "split (s0 @ a @ s1 @ b @ s2) = split_from [] (a @ s1 @ b @ s2)"
    unfolding split_def using assms(5) by (rule split_from_spaces)
  also have "\<dots> = split_from a (s1 @ b @ s2)"
    using split_from_word [OF assms(1), of "[]"] by simp
  also have "\<dots> = a # split_from [] (b @ s2)"
    using assms by (intro split_from_sep) auto
  also have "split_from [] (b @ s2) = split_from b s2"
    using split_from_word [OF assms(3), of "[]"] by simp
  also have "\<dots> = [b]"
    using assms by (intro split_from_end) auto
  finally show ?thesis .
qed

lemma lower_char_idem: "lower_char (lower_char c) = lower_char c"
  by (auto simp: lower_char_def Let_def)

lemma lower_idem: "lower (lower s) = lower s"
  by (simp add: lower_def lower_char_idem)

lemma bearer_char_not_space:
  "lower_char c \<in> set ''bearer'' \<Longrightarrow> \<not> isspace c"
  by (auto simp: lower_char_def isspace_def Let_def split: if_splits)

lemma lower_bearer_no_space:
  assumes "lower s = ''bearer''"
  shows "(\<forall>c \<in> set s. \<not> isspace c) \<and> s \<noteq> []"
proof -
  have "\<forall>c \<in> set s. lower_char c \<in> set ''bearer''"
    using assms unfolding lower_def by (metis image_eqI set_map)
  with assms show ?thesis by (auto simp: bearer_char_not_space lower_def)
qed

section \<open>Authorization\<close>

lemma lower_Bearer: "lower ''Bearer'' = ''bearer''" by code_simp
lemma lower_BEARER: "lower ''BEARER'' = ''bearer''" by code_simp
lemma lower_bearer: "lower ''bearer'' = ''bearer''" by code_simp
lemma lower_Token: "lower ''Token'' \<noteq> ''bearer''" by code_simp

lemma require_admin_parts:
  "split h = [s, t] \<Longrightarrow> lower s = ''bearer'' \<Longrightarrow>
   require_admin tok (Some h) = (if t = tok then Inr True else Inl (HTTPException 403 ''Invalid token''))"
  by (auto simp: require_admin_def split_def)

lemma create_denied: "require_admin tok a = Inl e \<Longrightarrow> create tok a c p n db = (Inl e, db)"
  by (simp add: create_def)

lemma update_denied: "require_admin tok a = Inl e \<Longrightarrow> update tok a c i p now db = (Inl e, db)"
  by (simp add: update_def)

lemma delete_denied: "require_admin tok a = Inl e \<Longrightarrow> delete tok a c i db = (Inl e, db)"
  by (simp add: delete_def)

text \<open>
  Claim C3. A write request (\<open>create\<close>, \<open>update\<close>, \<open>delete\<close>) is answered by
  \<open>require_admin\<close> first. With no Authorization header the answer is 401. With a header
  that does not split into exactly two parts whose first lower-cases to "bearer" the
  status is 401. With a header of that form whose token differs from the admin token
  the answer is 403. With a header of that form carrying the admin token the check
  returns \<open>True\<close>. Whenever the check raises, each of the three handlers answers with
  that exception and leaves the store as it was.
\<close>

theorem write_authorization:
  "require_admin tok None = Inl (HTTPException 401 ''Missing Authorization header'')
   \<and> (length (split h1) \<noteq> 2 \<or> lower (hd (split h1)) \<noteq> ''bearer'' \<longrightarrow>
        map_sum status_code id (require_admin tok (Some h1)) = Inl 401)
   \<and> (split h2 = [s2, t2] \<and> lower s2 = ''bearer'' \<and> t2 \<noteq> tok \<longrightarrow>
        require_admin tok (Some h2) = Inl (HTTPException 403 ''Invalid token''))
   \<and> (split h3 = [s3, tok] \<and> lower s3 = ''bearer'' \<longrightarrow>
        require_admin tok (Some h3) = Inr True)
   \<and> (require_admin tok a = Inl e \<longrightarrow>
        create tok a c p n db = (Inl e, db)
        \<and> update tok a c i p now db = (Inl e, db)
        \<and> delete tok a c i db = (Inl e, db))"
proof -
  have malformed: "map_sum status_code id (require_admin tok (Some h1)) = Inl 401"
    if "length (split h1) \<noteq> 2 \<or> lower (hd (split h1)) \<noteq> ''bearer''"
  proof (cases "length (split h1) = 2")
    case True
    then have "split h1 \<noteq> []" by auto
    then have "hd (split h1) = split h1 ! 0" by (simp add: hd_conv_nth)
    with that True show ?thesis by (simp add: require_admin_def)
  next
    case False
    then show ?thesis by (simp add: require_admin_def)
  qed
  show ?thesis
    using malformed
    by (simp add: require_admin_parts create_denied update_denied delete_denied)
      (simp add: require_admin_def)
qed

lemma split_Bearer_wrong: "split ''Bearer wrong'' = [''Bearer'', ''wrong'']"
  by (simp add: split_def isspace_def)
lemma split_Bearer_s3cret: "split ''Bearer s3cret'' = [''Bearer'', ''s3cret'']"
  by (simp add: split_def isspace_def)
lemma split_Token_s3cret: "split ''Token s3cret'' = [''Token'', ''s3cret'']"
  by (simp add: split_def isspace_def)

theorem write_authorization_witness:
  "require_admin ''s3cret'' None = Inl (HTTPException 401 ''Missing Authorization header'')
   \<and> map_sum status_code id (require_admin ''s3cret'' (Some ''Token s3cret'')) = Inl 401
   \<and> require_admin ''s3cret'' (Some ''Bearer wrong'') = Inl (HTTPException 403 ''Invalid token'')
   \<and> require_admin ''s3cret'' (Some ''Bearer s3cret'') = Inr True
   \<and> create ''s3cret'' None ''news'' [] (ObjectId ''0123456789abcdef01234567'') (\<lambda>c. [])
        = (Inl (HTTPException 401 ''Missing Authorization header''), (\<lambda>c. []))
   \<and> update ''s3cret'' None ''news'' ''0123456789abcdef01234567'' [] 7 (\<lambda>c. [])
        = (Inl (HTTPException 401 ''Missing Authorization header''), (\<lambda>c. []))
   \<and> delete ''s3cret'' None ''news'' ''0123456789abcdef01234567'' (\<lambda>c. [])
        = (Inl (HTTPException 401 ''Missing Authorization header''), (\<lambda>c. []))"
  using write_authorization [of "''s3cret''" "''Token s3cret''" "''Bearer wrong''" "''Bearer''" "''wrong''"
      "''Bearer s3cret''" "''Bearer''" None "HTTPException 401 ''Missing Authorization header''"
      "''news''" "[]" "ObjectId ''0123456789abcdef01234567''" "\<lambda>c. []"
      "''0123456789abcdef01234567''" 7]
  by (simp add: split_Bearer_wrong split_Bearer_s3cret split_Token_s3cret lower_Bearer lower_Token)

text \<open>
  Claim C10. The scheme is matched without regard to case. A header that splits into
  exactly two parts, the first lower-casing to "bearer" and the second equal to the
  admin token, passes the check. Such headers exist for every spelling of the scheme:
  a word that lower-cases to "bearer", at least one separator, and the admin token
  (non-empty and free of separators, as a part of a split always is), with any
  separators before and after, splits into exactly these two parts and passes.
\<close>

theorem bearer_scheme_any_case:
  "(split h = [s, t] \<and> lower s = ''bearer'' \<and> t = tok \<longrightarrow>
      require_admin tok (Some h) = Inr True)
   \<and> (lower s' = ''bearer'' \<and> tok' \<noteq> [] \<and> (\<forall>c \<in> set tok'. \<not> isspace c)
        \<and> (\<forall>c \<in> set s0. isspace c) \<and> (\<forall>c \<in> set s1. isspace c) \<and> s1 \<noteq> []
        \<and> (\<forall>c \<in> set s2. isspace c) \<longrightarrow>
      split (s0 @ s' @ s1 @ tok' @ s2) = [s', tok']
      \<and> require_admin tok' (Some (s0 @ s' @ s1 @ tok' @ s2)) = Inr True)"
proof -
  have built: "split (s0 @ s' @ s1 @ tok' @ s2) = [s', tok']
      \<and> require_admin tok' (Some (s0 @ s' @ s1 @ tok' @ s2)) = Inr True"
    if scheme: "lower s' = ''bearer''" and tok: "tok' \<noteq> []" "\<forall>c \<in> set tok'. \<not> isspace c"
      and seps: "\<forall>c \<in> set s0. isspace c" "\<forall>c \<in> set s1. isspace c" "s1 \<noteq> []"
        "\<forall>c \<in> set s2. isspace c"
  proof -
    from lower_bearer_no_space [OF scheme]
    have word: "\<forall>c \<in> set s'. \<not> isspace c" "s' \<noteq> []" by simp_all
    have parts: "split (s0 @ s' @ s1 @ tok' @ s2) = [s', tok']"
      using word tok(2,1) seps by (rule split_two)
    with scheme show ?thesis by (simp add: require_admin_parts)
  qed
  then show ?thesis by (simp add: require_admin_parts)
qed

lemma split_BEARER_s3cret: "split ''BEARER s3cret'' = [''BEARER'', ''s3cret'']"
  by (simp add: split_def isspace_def)

theorem bearer_scheme_any_case_witness:
  "require_admin ''s3cret'' (Some ''BEARER s3cret'') = Inr True
   \<and> split ('' '' @ ''bearer'' @ ''  '' @ ''s3cret'' @ '' '') = [''bearer'', ''s3cret'']
   \<and> require_admin ''s3cret'' (Some ('' '' @ ''bearer'' @ ''  '' @ ''s3cret'' @ '' '')) = Inr True"
  using bearer_scheme_any_case [of "''BEARER s3cret''" "''BEARER''" "''s3cret''" "''s3cret''"
      "''bearer''" "''s3cret''" "'' ''" "''  ''" "'' ''"]
  by (simp add: split_BEARER_s3cret lower_BEARER lower_bearer isspace_def)

section \<open>Collection names\<close>

lemma recognized_iff:
  "map_of COLLECTIONS c = None \<longleftrightarrow>
   c \<notin> {''setting'', ''about'', ''news'', ''film'', ''production'', ''partner'', ''application''}"
  by (simp add: COLLECTIONS_def)

lemma get_collection_known: "map_of COLLECTIONS c \<noteq> None \<Longrightarrow> get_collection c db = Inr (db c)"
  by (simp add: get_collection_def)

lemma get_collection_unknown:
  "map_of COLLECTIONS c = None \<Longrightarrow> get_collection c db = Inl (HTTPException 404 ''Unknown collection'')"
  by (simp add: get_collection_def)

lemma news_recognized: "map_of COLLECTIONS ''news'' = Some NewsItem"
  by (simp add: COLLECTIONS_def)

lemma film_recognized: "map_of COLLECTIONS ''film'' = Some Film"
  by (simp add: COLLECTIONS_def)

lemma auth_s3cret: "require_admin ''s3cret'' (Some ''Bearer s3cret'') = Inr True"
  by (simp add: require_admin_parts [OF split_Bearer_s3cret lower_Bearer])

lemma auth_missing: "require_admin tok None = Inl (HTTPException 401 ''Missing Authorization header'')"
  by (simp add: require_admin_def)




text \<open>
  Claim C4, as amended. For a request under /api whose collection name is not one of
  the seven names (compared exactly, so "News" is not "news"): when the verb is
  registered for the path, a GET, and a POST, PUT, PATCH or DELETE with a valid admin
  token, is answered 404 "Unknown collection", and a POST, PUT, PATCH or DELETE without
  valid credentials is answered by the authorization check, which runs first; when the
  verb is not registered for the path the answer is 405. The answer is the same
  whatever the store holds, and the store is left as it was.
\<close>

theorem unknown_collection:
  assumes "c \<notin> {''setting'', ''about'', ''news'', ''film'', ''production'', ''partner'', ''application''}"
  shows "(registered m1 i1 \<and> \<not> admin_only m1 \<longrightarrow>
            serve tok now new_id (Request m1 c i1 a1 p1 l1) db
              = (Inl (HTTPException 404 ''Unknown collection''), db))
         \<and> (registered m2 i2 \<and> admin_only m2 \<and> require_admin tok a2 = Inr True \<longrightarrow>
            serve tok now new_id (Request m2 c i2 a2 p2 l2) db
              = (Inl (HTTPException 404 ''Unknown collection''), db))
         \<and> (registered m3 i3 \<and> admin_only m3 \<and> require_admin tok a3 = Inl e \<longrightarrow>
            serve tok now new_id (Request m3 c i3 a3 p3 l3) db = (Inl e, db))
         \<and> (\<not> registered m4 i4 \<longrightarrow>
            serve tok now new_id (Request m4 c i4 a4 p4 l4) db
              = (Inl (HTTPException 405 ''Method Not Allowed''), db))"
proof -
  from assms have "map_of COLLECTIONS c = None" by (simp add: recognized_iff)
  then have coll: "\<And>db. get_collection c db = Inl (HTTPException 404 ''Unknown collection'')"
    by (rule get_collection_unknown)
  have reads: "serve tok now new_id (Request m1 c i1 a1 p1 l1) db
      = (Inl (HTTPException 404 ''Unknown collection''), db)"
    if "registered m1 i1" "\<not> admin_only m1"
    using that by (cases m1; cases i1) (simp_all add: list_documents_def get_document_def coll)
  have writes: "serve tok now new_id (Request m2 c i2 a2 p2 l2) db
      = (Inl (HTTPException 404 ''Unknown collection''), db)"
    if "registered m2 i2" "admin_only m2" "require_admin tok a2 = Inr True"
    using that by (cases m2; cases i2) (simp_all add: create_def update_def delete_def coll)
  have denied: "serve tok now new_id (Request m3 c i3 a3 p3 l3) db = (Inl e, db)"
    if "registered m3 i3" "admin_only m3" "require_admin tok a3 = Inl e"
    using that by (cases m3; cases i3) (simp_all add: create_def update_def delete_def)
  have other: "serve tok now new_id (Request m4 c i4 a4 p4 l4) db
      = (Inl (HTTPException 405 ''Method Not Allowed''), db)"
    if "\<not> registered m4 i4"
    using that by (cases m4; cases i4) simp_all
  from reads writes denied other show ?thesis by blast
qed

theorem unknown_collection_witness:
  "serve ''s3cret'' 7 (ObjectId ''0123456789abcdef01234567'')
      (Request GET ''News'' None None [] 100) (\<lambda>c. [])
     = (Inl (HTTPException 404 ''Unknown collection''), (\<lambda>c. []))
   \<and> serve ''s3cret'' 7 (ObjectId ''0123456789abcdef01234567'')
      (Request PATCH ''News'' (Some ''0123456789abcdef01234567'') (Some ''Bearer s3cret'') [] 100) (\<lambda>c. [])
     = (Inl (HTTPException 404 ''Unknown collection''), (\<lambda>c. []))
   \<and> serve ''s3cret'' 7 (ObjectId ''0123456789abcdef01234567'')
      (Request POST ''News'' None None [] 100) (\<lambda>c. [])
     = (Inl (HTTPException 401 ''Missing Authorization header''), (\<lambda>c. []))
   \<and> serve ''s3cret'' 7 (ObjectId ''0123456789abcdef01234567'')
      (Request DELETE ''News'' None (Some ''Bearer s3cret'') [] 100) (\<lambda>c. [])
     = (Inl (HTTPException 405 ''Method Not Allowed''), (\<lambda>c. []))"
  using unknown_collection [where c = "''News''" and tok = "''s3cret''" and now = 7
      and new_id = "ObjectId ''0123456789abcdef01234567''" and db = "\<lambda>c. []"
      and ?m1.0 = GET and ?i1.0 = None and ?a1.0 = None and ?p1.0 = "[]" and ?l1.0 = 100
      and ?m2.0 = PATCH and ?i2.0 = "Some ''0123456789abcdef01234567''"
      and ?a2.0 = "Some ''Bearer s3cret''" and ?p2.0 = "[]" and ?l2.0 = 100
      and ?m3.0 = POST and ?i3.0 = None and ?a3.0 = None and ?p3.0 = "[]" and ?l3.0 = 100
      and e = "HTTPException 401 ''Missing Authorization header''"
      and ?m4.0 = DELETE and ?i4.0 = None and ?a4.0 = "Some ''Bearer s3cret''" and ?p4.0 = "[]"
      and ?l4.0 = 100]
  by (simp add: auth_s3cret auth_missing)

text \<open>
  The claim as stated fails: a POST to an unknown collection with no credentials is
  answered 401, and a DELETE on /api/movies, which has no identifier segment, is
  answered 405 even with the admin token.
\<close>

theorem unknown_collection_counterexample:
  "map_of COLLECTIONS ''movies'' = None
   \<and> fst (serve ''s3cret'' 7 (ObjectId ''0123456789abcdef01234567'')
        (Request POST ''movies'' None None [] 100) (\<lambda>c. []))
      = Inl (HTTPException 401 ''Missing Authorization header'')
   \<and> fst (serve ''s3cret'' 7 (ObjectId ''0123456789abcdef01234567'')
        (Request DELETE ''movies'' None (Some ''Bearer s3cret'') [] 100) (\<lambda>c. []))
      = Inl (HTTPException 405 ''Method Not Allowed'')"
  by (simp add: COLLECTIONS_def create_def require_admin_def)

section \<open>Identifiers in the path\<close>

lemma validate_canonical: "canonical oid \<Longrightarrow> PyObjectId_validate (str_oid oid) = Inr oid"
  by (cases oid) (simp add: canonical_def PyObjectId_validate_def is_valid_def)

lemma fromhex_example: "fromhex ''0123456789abcdef01234567'' = Some ''0123456789abcdef01234567''"
  by code_simp

lemma canonical_example: "canonical (ObjectId ''0123456789abcdef01234567'')"
  by (simp add: canonical_def fromhex_example del: fromhex.simps)

lemma validate_example:
  "PyObjectId_validate ''0123456789abcdef01234567'' = Inr (ObjectId ''0123456789abcdef01234567'')"
  using validate_canonical [OF canonical_example] by simp

lemma validate_invalid:
  "\<not> is_valid i \<Longrightarrow> PyObjectId_validate i = Inl (ValueError ''Invalid ObjectId'')"
  by (simp add: PyObjectId_validate_def)

lemma not_valid_example: "\<not> is_valid ''not-an-id''"
  by (simp add: is_valid_def)

lemma spaced_id_is_valid:
  "is_valid ''01234567 89abcdef 012345''
   \<and> get_document ''news'' ''01234567 89abcdef 012345'' (\<lambda>c. []) = Inl (HTTPException 404 ''Not found'')"
  by code_simp

lemma malformed_id_raises:
  assumes "c \<in> {''setting'', ''about'', ''news'', ''film'', ''production'', ''partner'', ''application''}"
    and "\<not> is_valid i"
  shows "get_document c i db = Inl (ValueError ''Invalid ObjectId'')"
    and "require_admin tok a = Inr True \<Longrightarrow>
         update tok a c i p now db = (Inl (ValueError ''Invalid ObjectId''), db)"
    and "require_admin tok a = Inr True \<Longrightarrow>
         delete tok a c i db = (Inl (ValueError ''Invalid ObjectId''), db)"
proof -
  from assms(1) have "map_of COLLECTIONS c \<noteq> None" by (simp add: recognized_iff)
  then have coll: "get_collection c db = Inr (db c)" by (rule get_collection_known)
  note bad = validate_invalid [OF assms(2)]
  show "get_document c i db = Inl (ValueError ''Invalid ObjectId'')"
    by (simp add: get_document_def coll bad)
  show "require_admin tok a = Inr True \<Longrightarrow>
      update tok a c i p now db = (Inl (ValueError ''Invalid ObjectId''), db)"
    by (simp add: update_def coll bad)
  show "require_admin tok a = Inr True \<Longrightarrow>
      delete tok a c i db = (Inl (ValueError ''Invalid ObjectId''), db)"
    by (simp add: delete_def coll bad)
qed

text \<open>
  Claim C2. The claim asks for 404 when the collection is recognised and the
  identifier is not valid. The code does not answer so. At GET /api/news/not-an-id,
  and at PUT and DELETE on the same path with the admin token, the handler ends in
  the \<open>ValueError\<close> that \<open>PyObjectId.validate\<close> raises; it is no \<open>HTTPException\<close>, nothing
  converts it, and the status is 500. The other ways these handlers fail are answered
  404: an identifier that is valid but names no record gets 404 "Not found".
\<close>

theorem malformed_id_unhandled:
  "map_of COLLECTIONS ''news'' = Some NewsItem
   \<and> \<not> is_valid ''not-an-id''
   \<and> fst (serve ''s3cret'' 7 (ObjectId ''0123456789abcdef01234567'')
        (Request GET ''news'' (Some ''not-an-id'') None [] 100) (\<lambda>c. []))
      = Inl (ValueError ''Invalid ObjectId'')
   \<and> fst (serve ''s3cret'' 7 (ObjectId ''0123456789abcdef01234567'')
        (Request PUT ''news'' (Some ''not-an-id'') (Some ''Bearer s3cret'') [] 100) (\<lambda>c. []))
      = Inl (ValueError ''Invalid ObjectId'')
   \<and> fst (serve ''s3cret'' 7 (ObjectId ''0123456789abcdef01234567'')
        (Request DELETE ''news'' (Some ''not-an-id'') (Some ''Bearer s3cret'') [] 100) (\<lambda>c. []))
      = Inl (ValueError ''Invalid ObjectId'')
   \<and> status_code (ValueError ''Invalid ObjectId'') = 500
   \<and> get_document ''news'' ''0123456789abcdef01234567'' (\<lambda>c. []) = Inl (HTTPException 404 ''Not found'')"
proof -
  have c: "''news'' \<in> {''setting'', ''about'', ''news'', ''film'', ''production'', ''partner'', ''application''}"
    by simp
  note bad = malformed_id_raises [OF c not_valid_example]
  have absent: "get_document ''news'' ''0123456789abcdef01234567'' (\<lambda>c. []) = Inl (HTTPException 404 ''Not found'')"
    by (simp add: get_document_def get_collection_def news_recognized validate_example find_one_def)
  show ?thesis
    by (simp add: news_recognized not_valid_example bad auth_s3cret absent)
qed

section \<open>Setting the same paths again\<close>

text \<open>
  When an update has been applied, applying an update with the same paths (and
  possibly other values) succeeds and gives what it gives on the record as it was
  before. This holds at every level: embedded documents, arrays, nodes, records.
\<close>

lemma update_present_swap:
  "k \<noteq> k' \<Longrightarrow> k \<in> fst ` set al \<Longrightarrow>
   AList.update k v (AList.update k' v' al) = AList.update k' v' (AList.update k v al)"
  by (induction al) auto

lemma same_kids_Cons:
  "same_kids (x # R1) K2 \<Longrightarrow>
   \<exists>t2 R2. K2 = (fst x, t2) # R2 \<and> same_shape (snd x) t2 \<and> same_kids R1 R2"
  by (cases K2; cases x) auto

lemma same_kids_keys: "same_kids ks ks' \<Longrightarrow> map fst ks = map fst ks'"
proof (induction ks arbitrary: ks')
  case Nil
  then show ?case by (cases ks') auto
next
  case (Cons x ks)
  from same_kids_Cons [OF Cons.prems] Cons.IH show ?case by auto
qed

lemma apply_kids_frame:
  "apply_kids R al = Inr al' \<Longrightarrow> k \<notin> fst ` set R \<Longrightarrow> map_of al' k = map_of al k"
proof (induction R arbitrary: al)
  case Nil
  then show ?case by simp
next
  case (Cons x R)
  obtain k' t where x: "x = (k', t)" by (cases x)
  with Cons.prems obtain v where v: "apply_node t (map_of al k') = Inr v"
    "apply_kids R (AList.update k' v al) = Inr al'"
    by (auto split: sum.splits)
  from Cons.prems x have "k \<noteq> k'" "k \<notin> fst ` set R" by auto
  with Cons.IH [OF v(2)] show ?case by (simp add: update_conv')
qed

lemma apply_kids_swap:
  "k \<notin> fst ` set R \<Longrightarrow> k \<in> fst ` set al \<Longrightarrow>
   apply_kids R (AList.update k v al)
     = (case apply_kids R al of Inl e \<Rightarrow> Inl e | Inr al' \<Rightarrow> Inr (AList.update k v al'))"
proof (induction R arbitrary: al)
  case Nil
  then show ?case by simp
next
  case (Cons x R)
  obtain k' t where x: "x = (k', t)" by (cases x)
  with Cons.prems have ne: "k \<noteq> k'" and out: "k \<notin> fst ` set R" by auto
  have look: "map_of (AList.update k v al) k' = map_of al k'"
    using ne by (simp add: update_conv')
  show ?case
  proof (cases "apply_node t (map_of al k')")
    case (Inl e)
    with x look show ?thesis by simp
  next
    case (Inr w)
    have "k \<in> fst ` set (AList.update k' w al)"
      using Cons.prems(2) by (simp add: dom_update)
    from Cons.IH [OF out this]
    have "apply_kids R (AList.update k v (AList.update k' w al))
        = (case apply_kids R (AList.update k' w al) of
             Inl e \<Rightarrow> Inl e | Inr al' \<Rightarrow> Inr (AList.update k v al'))" .
    moreover have "AList.update k' w (AList.update k v al) = AList.update k v (AList.update k' w al)"
      using update_present_swap [OF ne Cons.prems(2)] by simp
    ultimately show ?thesis using x look Inr by simp
  qed
qed

lemma apply_kids_again:
  assumes nodes: "\<And>k t t2 e r. (k, t) \<in> set K1 \<Longrightarrow> same_shape t t2 \<Longrightarrow> wf_node t \<Longrightarrow>
      apply_node t e = Inr r \<Longrightarrow> \<exists>r2. apply_node t2 e = Inr r2 \<and> apply_node t2 (Some r) = Inr r2"
    and "same_kids K1 K2" and "distinct (map fst K1)" and "wf_kids K1"
    and "apply_kids K1 al = Inr al1"
  shows "\<exists>al2. apply_kids K2 al = Inr al2 \<and> apply_kids K2 al1 = Inr al2"
  using assms
proof (induction K1 arbitrary: K2 al al1)
  case Nil
  then show ?case by (cases K2) auto
next
  case (Cons x R1)
  obtain k t1 where x: "x = (k, t1)" by (cases x)
  from same_kids_Cons [OF Cons.prems(2)] x obtain t2 R2 where K2: "K2 = (k, t2) # R2"
    and shape: "same_shape t1 t2" and rest: "same_kids R1 R2" by auto
  from Cons.prems(3) x have out: "k \<notin> fst ` set R1" and dist: "distinct (map fst R1)" by auto
  from Cons.prems(4) x have wf: "wf_node t1" "wf_kids R1" by auto
  from Cons.prems(5) x obtain v1 where v1: "apply_node t1 (map_of al k) = Inr v1"
    "apply_kids R1 (AList.update k v1 al) = Inr al1"
    by (auto split: sum.splits)
  have look: "map_of al1 k = Some v1"
    using apply_kids_frame [OF v1(2) out] by (simp add: update_conv')
  obtain v2 where v2: "apply_node t2 (map_of al k) = Inr v2" "apply_node t2 (Some v1) = Inr v2"
    using Cons.prems(1) [of k t1 t2 "map_of al k" v1] shape wf(1) v1(1) x by auto
  have "k \<in> fst ` set (AList.update k v1 al)" by (simp add: dom_update)
  from apply_kids_swap [OF out this, of v2] v1(2)
  have moved: "apply_kids R1 (AList.update k v2 al) = Inr (AList.update k v2 al1)" by simp
  have sub: "\<exists>r2. apply_node t' e = Inr r2 \<and> apply_node t' (Some r) = Inr r2"
    if "(k', t) \<in> set R1" "same_shape t t'" "wf_node t" "apply_node t e = Inr r"
    for k' t t' e r
    using Cons.prems(1) [of k' t t' e r] that by simp
  have "\<exists>al2. apply_kids R2 (AList.update k v2 al) = Inr al2
      \<and> apply_kids R2 (AList.update k v2 al1) = Inr al2"
    using sub rest dist wf(2) moved by (rule Cons.IH)
  with v2 look K2 show ?case by simp
qed

lemma index_of_decimal: "index_of k = Some n \<Longrightarrow> k = decimal n"
  by (auto simp: index_of_def split: if_splits)

lemma index_of_inj: "index_of k = Some n \<Longrightarrow> index_of k' = Some n \<Longrightarrow> k = k'"
  using index_of_decimal by metis

lemma apply_items_frame:
  "apply_items R xs = Inr xs' \<Longrightarrow> n < length xs \<Longrightarrow> \<forall>k \<in> fst ` set R. index_of k \<noteq> Some n \<Longrightarrow>
   n < length xs' \<and> xs' ! n = xs ! n"
proof (induction R arbitrary: xs)
  case Nil
  then show ?case by simp
next
  case (Cons x R)
  obtain k t where x: "x = (k, t)" by (cases x)
  from Cons.prems(1) x obtain m where m: "index_of k = Some m"
    by (auto split: option.splits)
  from Cons.prems(3) x m have ne: "m \<noteq> n" and out: "\<forall>k \<in> fst ` set R. index_of k \<noteq> Some n"
    by auto
  show ?case
  proof (cases "m < length xs")
    case True
    with Cons.prems(1) x m obtain v where v: "apply_items R (xs[m := v]) = Inr xs'"
      by (auto split: sum.splits)
    from Cons.IH [OF v _ out] Cons.prems(2) ne show ?thesis by simp
  next
    case False
    with Cons.prems(1) x m obtain v
      where v: "apply_items R (xs @ replicate (m - length xs) PNone @ [v]) = Inr xs'"
      by (auto split: sum.splits if_splits)
    from Cons.IH [OF v _ out] Cons.prems(2) show ?thesis by (simp add: nth_append)
  qed
qed

lemma apply_items_swap:
  "n < length xs \<Longrightarrow> \<forall>k \<in> fst ` set R. index_of k \<noteq> Some n \<Longrightarrow>
   apply_items R (xs[n := v])
     = (case apply_items R xs of Inl e \<Rightarrow> Inl e | Inr xs' \<Rightarrow> Inr (xs'[n := v]))"
proof (induction R arbitrary: xs)
  case Nil
  then show ?case by simp
next
  case (Cons x R)
  obtain k t where x: "x = (k, t)" by (cases x)
  from Cons.prems(2) x have out: "\<forall>k \<in> fst ` set R. index_of k \<noteq> Some n" by auto
  show ?case
  proof (cases "index_of k")
    case None
    with x show ?thesis by simp
  next
    case (Some m)
    with Cons.prems(2) x have ne: "m \<noteq> n" by auto
    show ?thesis
    proof (cases "m < length xs")
      case True
      show ?thesis
      proof (cases "apply_node t (Some (xs ! m))")
        case (Inl e)
        with x Some True ne show ?thesis by simp
      next
        case (Inr w)
        have "apply_items R ((xs[m := w])[n := v])
            = (case apply_items R (xs[m := w]) of Inl e \<Rightarrow> Inl e | Inr xs' \<Rightarrow> Inr (xs'[n := v]))"
          using Cons.prems(1) out by (intro Cons.IH) auto
        moreover have "(xs[n := v])[m := w] = (xs[m := w])[n := v]"
          using ne by (simp add: list_update_swap)
        ultimately show ?thesis using x Some True ne Inr by simp
      qed
    next
      case False
      show ?thesis
      proof (cases "1500000 < m - length xs")
        case True
        with x Some False show ?thesis by simp
      next
        case near: False
        show ?thesis
        proof (cases "apply_node t None")
          case (Inl e)
          with x Some False near show ?thesis by simp
        next
          case (Inr w)
          let ?ys = "xs @ replicate (m - length xs) PNone @ [w]"
          have "apply_items R (?ys[n := v])
              = (case apply_items R ?ys of Inl e \<Rightarrow> Inl e | Inr xs' \<Rightarrow> Inr (xs'[n := v]))"
            using Cons.prems(1) out by (intro Cons.IH) auto
          moreover have "?ys[n := v] = xs[n := v] @ replicate (m - length xs) PNone @ [w]"
            using Cons.prems(1) by (simp add: list_update_append1)
          ultimately show ?thesis using x Some False near Inr by simp
        qed
      qed
    qed
  qed
qed

lemma apply_items_again:
  assumes nodes: "\<And>k t t2 e r. (k, t) \<in> set K1 \<Longrightarrow> same_shape t t2 \<Longrightarrow> wf_node t \<Longrightarrow>
      apply_node t e = Inr r \<Longrightarrow> \<exists>r2. apply_node t2 e = Inr r2 \<and> apply_node t2 (Some r) = Inr r2"
    and "same_kids K1 K2" and "distinct (map fst K1)" and "wf_kids K1"
    and "apply_items K1 xs = Inr xs1"
  shows "\<exists>xs2. apply_items K2 xs = Inr xs2 \<and> apply_items K2 xs1 = Inr xs2"
  using assms
proof (induction K1 arbitrary: K2 xs xs1)
  case Nil
  then show ?case by (cases K2) auto
next
  case (Cons x R1)
  obtain k t1 where x: "x = (k, t1)" by (cases x)
  from same_kids_Cons [OF Cons.prems(2)] x obtain t2 R2 where K2: "K2 = (k, t2) # R2"
    and shape: "same_shape t1 t2" and rest: "same_kids R1 R2" by auto
  from Cons.prems(3) x have notin: "k \<notin> fst ` set R1" and dist: "distinct (map fst R1)" by auto
  from Cons.prems(4) x have wf: "wf_node t1" "wf_kids R1" by auto
  from Cons.prems(5) x obtain n where n: "index_of k = Some n"
    by (auto split: option.splits)
  have out: "\<forall>k' \<in> fst ` set R1. index_of k' \<noteq> Some n"
    using notin index_of_inj [OF n] by auto
  have sub: "\<exists>r2. apply_node t' e = Inr r2 \<and> apply_node t' (Some r) = Inr r2"
    if "(k', t) \<in> set R1" "same_shape t t'" "wf_node t" "apply_node t e = Inr r"
    for k' t t' e r
    using Cons.prems(1) [of k' t t' e r] that by simp
  show ?case
  proof (cases "n < length xs")
    case True
    with Cons.prems(5) x n obtain v1 where v1: "apply_node t1 (Some (xs ! n)) = Inr v1"
      "apply_items R1 (xs[n := v1]) = Inr xs1"
      by (auto split: sum.splits)
    from apply_items_frame [OF v1(2) _ out] True have at: "n < length xs1" "xs1 ! n = v1"
      by simp_all
    obtain v2 where v2: "apply_node t2 (Some (xs ! n)) = Inr v2" "apply_node t2 (Some v1) = Inr v2"
      using Cons.prems(1) [of k t1 t2 "Some (xs ! n)" v1] shape wf(1) v1(1) x by auto
    have "n < length (xs[n := v1])" using True by simp
    from apply_items_swap [OF this out, of v2] v1(2)
    have moved: "apply_items R1 (xs[n := v2]) = Inr (xs1[n := v2])" by simp
    have "\<exists>xs2. apply_items R2 (xs[n := v2]) = Inr xs2 \<and> apply_items R2 (xs1[n := v2]) = Inr xs2"
      using sub rest dist wf(2) moved by (rule Cons.IH)
    with v2 at K2 n True show ?thesis by simp
  next
    case False
    let ?pad = "replicate (n - length xs) PNone"
    from False Cons.prems(5) x n have near: "\<not> 1500000 < n - length xs"
      by (auto split: if_splits)
    with False Cons.prems(5) x n obtain v1 where v1: "apply_node t1 None = Inr v1"
      "apply_items R1 (xs @ ?pad @ [v1]) = Inr xs1"
      by (auto split: sum.splits)
    have len: "n < length (xs @ ?pad @ [v1])" using False by simp
    have "(xs @ ?pad @ [v1]) ! n = v1"
      using False by (simp add: nth_append)
    with apply_items_frame [OF v1(2) len out] have at: "n < length xs1" "xs1 ! n = v1"
      by simp_all
    obtain v2 where v2: "apply_node t2 None = Inr v2" "apply_node t2 (Some v1) = Inr v2"
      using Cons.prems(1) [of k t1 t2 None v1] shape wf(1) v1(1) x by auto
    have same: "(xs @ ?pad @ [v1])[n := v2] = xs @ ?pad @ [v2]"
      using False by (simp add: list_update_append)
    from apply_items_swap [OF len out, of v2] v1(2) same
    have moved: "apply_items R1 (xs @ ?pad @ [v2]) = Inr (xs1[n := v2])" by simp
    have "\<exists>xs2. apply_items R2 (xs @ ?pad @ [v2]) = Inr xs2 \<and> apply_items R2 (xs1[n := v2]) = Inr xs2"
      using sub rest dist wf(2) moved by (rule Cons.IH)
    with v2 at K2 n False near show ?thesis by simp
  qed
qed

lemma wf_kids_member: "wf_kids ks \<Longrightarrow> (k, t) \<in> set ks \<Longrightarrow> wf_node t"
  by (induction ks) auto

lemma apply_node_again:
  "same_shape t1 t2 \<Longrightarrow> wf_node t1 \<Longrightarrow> apply_node t1 e = Inr r \<Longrightarrow>
   \<exists>r2. apply_node t2 e = Inr r2 \<and> apply_node t2 (Some r) = Inr r2"
proof (induction t1 arbitrary: t2 e r)
  case (Leaf v)
  then show ?case by (cases t2) auto
next
  case (Node K1)
  from Node.prems(1) obtain K2 where t2: "t2 = Node K2" and kids: "same_kids K1 K2"
    by (cases t2) auto
  from Node.prems(2) have dist: "distinct (map fst K1)" and wf: "wf_kids K1" by auto
  have sub: "\<exists>r2. apply_node t' e = Inr r2 \<and> apply_node t' (Some r) = Inr r2"
    if "(k, t) \<in> set K1" "same_shape t t'" "wf_node t" "apply_node t e = Inr r"
    for k t t' e r
    using Node.IH [of "(k, t)" t t' e r] that by simp
  show ?case
  proof (cases e)
    case None
    with Node.prems(3) obtain al1 where al1: "apply_kids K1 [] = Inr al1" "r = PDict al1"
      by (auto split: sum.splits)
    have "\<exists>al2. apply_kids K2 [] = Inr al2 \<and> apply_kids K2 al1 = Inr al2"
      using sub kids dist wf al1(1) by (rule apply_kids_again)
    then show ?thesis using None t2 al1(2) by auto
  next
    case (Some x)
    show ?thesis
    proof (cases x)
      case (PDict al)
      with Node.prems(3) Some obtain al1 where al1: "apply_kids K1 al = Inr al1" "r = PDict al1"
        by (auto split: sum.splits)
      have "\<exists>al2. apply_kids K2 al = Inr al2 \<and> apply_kids K2 al1 = Inr al2"
        using sub kids dist wf al1(1) by (rule apply_kids_again)
      then show ?thesis using Some PDict t2 al1(2) by auto
    next
      case (PList xs)
      with Node.prems(3) Some obtain xs1 where xs1: "apply_items K1 xs = Inr xs1" "r = PList xs1"
        by (auto split: sum.splits)
      have "\<exists>xs2. apply_items K2 xs = Inr xs2 \<and> apply_items K2 xs1 = Inr xs2"
        using sub kids dist wf xs1(1) by (rule apply_items_again)
      then show ?thesis using Some PList t2 xs1(2) by auto
    qed (use Node.prems(3) Some in auto)
  qed
qed

lemma same_kids_map_of:
  "same_kids K1 K2 \<Longrightarrow> rel_option same_shape (map_of K1 c) (map_of K2 c)"
proof (induction K1 arbitrary: K2)
  case Nil
  then show ?case by (cases K2) auto
next
  case (Cons x K1)
  from same_kids_Cons [OF Cons.prems] obtain t2 R2 where "K2 = (fst x, t2) # R2"
    "same_shape (snd x) t2" "same_kids K1 R2" by auto
  with Cons.IH [of R2] show ?case by (cases x) auto
qed

lemma same_kids_update:
  "same_kids K1 K2 \<Longrightarrow> same_shape t1 t2 \<Longrightarrow>
   same_kids (AList.update c t1 K1) (AList.update c t2 K2)"
proof (induction K1 arbitrary: K2)
  case Nil
  then show ?case by (cases K2) auto
next
  case (Cons x K1)
  from same_kids_Cons [OF Cons.prems(1)] obtain t' R2 where "K2 = (fst x, t') # R2"
    "same_shape (snd x) t'" "same_kids K1 R2" by auto
  with Cons.IH [of R2] Cons.prems(2) show ?case by (cases x) auto
qed

lemma wf_kids_map_of: "wf_kids ks \<Longrightarrow> map_of ks c = Some t \<Longrightarrow> wf_node t"
  by (induction ks) (auto split: if_splits)

lemma wf_kids_update: "wf_kids ks \<Longrightarrow> wf_node t \<Longrightarrow> wf_kids (AList.update c t ks)"
  by (induction ks) auto

lemma insert_path_related:
  "rel_option same_shape t1 t2 \<Longrightarrow>
   rel_sum (=) same_shape (insert_path cs v1 t1) (insert_path cs v2 t2)"
proof (induction cs v1 t1 arbitrary: t2 rule: insert_path.induct)
  case (1 v)
  then show ?case by simp
next
  case (2 v t)
  then show ?case by (cases t2) auto
next
  case (3 c cs v)
  from "3.prems" have t2: "t2 = None" by simp
  from "3.IH" [of None]
  have "rel_sum (=) same_shape (insert_path cs v None) (insert_path cs v2 None)" by simp
  then show ?case using t2 by (auto elim!: rel_sum.cases)
next
  case (4 c cs v w)
  then obtain w' where "t2 = Some (Leaf w')"
    by (cases t2; cases "the t2") auto
  then show ?case by simp
next
  case (5 c cs v kids)
  then obtain kids' where t2: "t2 = Some (Node kids')" and kids: "same_kids kids kids'"
    by (cases t2; cases "the t2") auto
  from "5.IH" [OF same_kids_map_of [OF kids]]
  have "rel_sum (=) same_shape (insert_path cs v (map_of kids c)) (insert_path cs v2 (map_of kids' c))" .
  then show ?case using t2 kids by (auto elim!: rel_sum.cases simp: same_kids_update)
qed

lemma insert_path_wf:
  "insert_path cs v t = Inr t' \<Longrightarrow> (\<And>x. t = Some x \<Longrightarrow> wf_node x) \<Longrightarrow> wf_node t'"
proof (induction cs v t arbitrary: t' rule: insert_path.induct)
  case (1 v)
  then show ?case by auto
next
  case (2 v t)
  then show ?case by simp
next
  case (3 c cs v)
  then show ?case by (auto split: sum.splits)
next
  case (4 c cs v w)
  then show ?case by simp
next
  case (5 c cs v kids)
  from "5.prems"(1) obtain t where t: "insert_path cs v (map_of kids c) = Inr t"
    "t' = Node (AList.update c t kids)"
    by (auto split: sum.splits)
  from "5.prems"(2) have wf: "distinct (map fst kids)" "wf_kids kids" by auto
  have "wf_node t"
  proof (rule "5.IH" [OF t(1)])
    fix x assume "map_of kids c = Some x"
    with wf(2) show "wf_node x" by (rule wf_kids_map_of)
  qed
  with wf t(2) show ?case by (simp add: distinct_update wf_kids_update)
qed

lemma build_related:
  "list_all2 (\<lambda>x y. fst x = fst y) s1 s2 \<Longrightarrow> rel_option same_shape t1 t2 \<Longrightarrow>
   rel_sum (=) (rel_option same_shape) (build s1 t1) (build s2 t2)"
proof (induction s1 s2 arbitrary: t1 t2 rule: list_all2_induct)
  case Nil
  then show ?case by simp
next
  case (Cons x s1 y s2)
  obtain k v1 v2 where xy: "x = (k, v1)" "y = (k, v2)"
    using Cons.hyps(1) by (cases x; cases y) auto
  show ?case
  proof (cases "list_all component_ok (components k)")
    case False
    with xy show ?thesis by simp
  next
    case True
    have rel: "rel_sum (=) same_shape (insert_path (components k) v1 t1)
        (insert_path (components k) v2 t2)"
      using Cons.prems by (rule insert_path_related)
    show ?thesis
    proof (cases "insert_path (components k) v1 t1")
      case (Inl e)
      with rel have "insert_path (components k) v2 t2 = Inl e"
        by (auto elim: rel_sum.cases)
      with Inl xy True show ?thesis by simp
    next
      case (Inr a)
      with rel obtain b where b: "insert_path (components k) v2 t2 = Inr b" "same_shape a b"
        by (auto elim: rel_sum.cases)
      then have "rel_option same_shape (Some a) (Some b)" by simp
      from Cons.IH [OF this] xy True Inr b(1) show ?thesis by simp
    qed
  qed
qed

lemma build_wf:
  "build s t = Inr (Some t') \<Longrightarrow> (\<And>x. t = Some x \<Longrightarrow> wf_node x) \<Longrightarrow> wf_node t'"
proof (induction s arbitrary: t)
  case Nil
  then show ?case by simp
next
  case (Cons x s)
  obtain k v where x: "x = (k, v)" by (cases x)
  with Cons.prems(1) obtain t1 where t1: "insert_path (components k) v t = Inr t1"
    "build s (Some t1) = Inr (Some t')"
    by (auto split: if_splits sum.splits)
  from insert_path_wf [OF t1(1) Cons.prems(2)] have "wf_node t1" by simp
  with Cons.IH [OF t1(2)] show ?case by simp
qed

lemma update_same_keys:
  "list_all2 (\<lambda>x y. fst x = fst y) (AList.update k v1 p) (AList.update k v2 p)"
  by (induction p) (auto simp: list_all2_same)

lemma encode_error_stamp:
  "encode_error_dict (AList.update k (PDatetime n1) p)
     = encode_error_dict (AList.update k (PDatetime n2) p)"
  by (induction p) (auto split: option.splits)

lemma same_shape_id: "same_kids K1 K2 \<Longrightarrow> map_of K1 c = None \<longleftrightarrow> map_of K2 c = None"
  using same_kids_map_of [of K1 K2 c] by (cases "map_of K1 c"; cases "map_of K2 c") auto

lemma apply_update_again:
  assumes "same_shape t1 t2" and "wf_node t1" and "apply_update t1 f = Inr f1"
  shows "\<exists>f2. apply_update t2 f = Inr f2 \<and> apply_update t2 f1 = Inr f2"
proof (cases t1)
  case (Leaf v)
  with assms(3) show ?thesis by simp
next
  case (Node K1)
  with assms(1) obtain K2 where t2: "t2 = Node K2" and kids: "same_kids K1 K2"
    by (cases t2) auto
  from assms(2) Node have dist: "distinct (map fst K1)" and wf: "wf_kids K1" by auto
  from assms(3) Node have free: "map_of K1 ''_id'' = None" and run: "apply_kids K1 f = Inr f1"
    by (auto split: if_splits)
  have sub: "\<exists>r2. apply_node t' e = Inr r2 \<and> apply_node t' (Some r) = Inr r2"
    if "(k, t) \<in> set K1" "same_shape t t'" "wf_node t" "apply_node t e = Inr r"
    for k t t' e r
    using that(2-4) by (rule apply_node_again)
  have "\<exists>f2. apply_kids K2 f = Inr f2 \<and> apply_kids K2 f1 = Inr f2"
    using sub kids dist wf run by (rule apply_kids_again)
  with same_shape_id [OF kids, of "''_id''"] free t2
  show ?thesis by simp
qed

lemma update_first_again:
  assumes "same_shape t1 t2" and "wf_node t1"
  shows "update_first docs oid t1 = Inr (m, docs1) \<Longrightarrow>
         \<exists>docs2. update_first docs oid t2 = Inr (m, docs2) \<and> update_first docs1 oid t2 = Inr (m, docs2)"
proof (induction docs arbitrary: m docs1)
  case Nil
  then show ?case by simp
next
  case (Cons d docs)
  show ?case
  proof (cases "ident d = oid")
    case True
    with Cons.prems obtain f1 where f1: "apply_update t1 (fields d) = Inr f1"
      "docs1 = Document oid f1 # docs" "m = 1"
      by (auto split: sum.splits)
    from apply_update_again [OF assms f1(1)] f1(2,3) True show ?thesis by auto
  next
    case False
    with Cons.prems obtain ds' where ds': "update_first docs oid t1 = Inr (m, ds')"
      "docs1 = d # ds'"
      by (auto split: sum.splits prod.splits)
    from Cons.IH [OF ds'(1)] ds'(2) False show ?thesis by auto
  qed
qed

lemma update_one_again:
  assumes "update_one docs oid (AList.update k (PDatetime n1) p) = Inr (m, docs1)"
  shows "\<exists>docs2. update_one docs oid (AList.update k (PDatetime n2) p) = Inr (m, docs2)
           \<and> update_one docs1 oid (AList.update k (PDatetime n2) p) = Inr (m, docs2)"
proof -
  let ?s1 = "AList.update k (PDatetime n1) p"
  let ?s2 = "AList.update k (PDatetime n2) p"
  from assms have enc: "encode_error_dict ?s1 = None"
    by (auto simp: update_one_def split: option.splits)
  then have enc2: "encode_error_dict ?s2 = None"
    using encode_error_stamp [of k n1 p n2] by simp
  from assms enc obtain r1 where r1: "build ?s1 None = Inr r1"
    by (auto simp: update_one_def split: sum.splits)
  have "rel_sum (=) (rel_option same_shape) (build ?s1 None) (build ?s2 None)"
    using update_same_keys by (rule build_related) simp
  with r1 obtain r2 where r2: "build ?s2 None = Inr r2" and rel: "rel_option same_shape r1 r2"
    by (auto elim!: rel_sum.cases)
  show ?thesis
  proof (cases r1)
    case None
    with rel have "r2 = None" by simp
    moreover from assms enc r1 None have "docs1 = docs"
      "m = (if find_one docs oid = None then 0 else 1)"
      by (auto simp: update_one_def)
    ultimately show ?thesis using enc2 r2 by (auto simp: update_one_def)
  next
    case (Some t1)
    with rel obtain t2 where t2: "r2 = Some t2" and shape: "same_shape t1 t2"
      by (cases r2) auto
    from build_wf [of ?s1 None t1] r1 Some have wf: "wf_node t1" by simp
    from assms enc r1 Some have "update_first docs oid t1 = Inr (m, docs1)"
      by (simp add: update_one_def)
    from update_first_again [OF shape wf this] enc2 r2 t2
    show ?thesis by (simp add: update_one_def)
  qed
qed

section \<open>Updates with plain payloads\<close>

lemma pieces_plain: "CHR ''.'' \<notin> set k \<Longrightarrow> pieces w k = [w @ k]"
  by (induction k arbitrary: w) auto

lemma components_plain: "plain_key k \<Longrightarrow> components k = [k] \<and> list_all component_ok [k]"
  by (simp add: plain_key_def components_def pieces_plain component_ok_def)

lemma update_fresh: "k \<notin> fst ` set al \<Longrightarrow> AList.update k v al = al @ [(k, v)]"
  by (induction al) auto

lemma map_of_fresh: "k \<notin> fst ` set al \<Longrightarrow> map_of al k = None"
  by (simp add: map_of_eq_None_iff)

lemma build_plain_from:
  "list_all plain_key (map fst p) \<Longrightarrow> distinct (map fst p) \<Longrightarrow>
   fst ` set acc \<inter> fst ` set p = {} \<Longrightarrow>
   build p (Some (Node acc)) = Inr (Some (Node (acc @ leaves p)))"
proof (induction p arbitrary: acc)
  case Nil
  then show ?case by (simp add: leaves_def)
next
  case (Cons x p)
  obtain k v where x: "x = (k, v)" by (cases x)
  from Cons.prems x have k: "plain_key k" "k \<notin> fst ` set acc" "k \<notin> fst ` set p" by auto
  have step: "insert_path (components k) v (Some (Node acc)) = Inr (Node (acc @ [(k, Leaf v)]))"
    using components_plain [OF k(1)] k(2) by (simp add: map_of_fresh update_fresh)
  have "fst ` set (acc @ [(k, Leaf v)]) \<inter> fst ` set p = {}"
    using Cons.prems(3) k(3) x by auto
  from Cons.IH [OF _ _ this] Cons.prems(1,2) x step components_plain [OF k(1)]
  show ?case by (simp add: leaves_def)
qed

lemma build_plain:
  assumes "list_all plain_key (map fst p)" and "distinct (map fst p)" and "p \<noteq> []"
  shows "build p None = Inr (Some (Node (leaves p)))"
proof -
  from assms(3) obtain k v q where p: "p = (k, v) # q" by (cases p) auto
  with assms have k: "plain_key k" "k \<notin> fst ` set q" and q: "list_all plain_key (map fst q)"
    "distinct (map fst q)" by auto
  have "fst ` set [(k, Leaf v)] \<inter> fst ` set q = {}" using k(2) by simp
  from build_plain_from [OF q this] components_plain [OF k(1)] p
  show ?thesis by (simp add: leaves_def)
qed

lemma apply_kids_leaves:
  "distinct (map fst p) \<Longrightarrow>
   \<exists>al'. apply_kids (leaves p) al = Inr al'
     \<and> (\<forall>k. map_of al' k = (case map_of p k of Some v \<Rightarrow> Some v | None \<Rightarrow> map_of al k))"
proof (induction p arbitrary: al)
  case Nil
  then show ?case by (simp add: leaves_def)
next
  case (Cons x p)
  obtain k0 v0 where x: "x = (k0, v0)" by (cases x)
  from Cons.prems x have fresh: "map_of p k0 = None" and dist: "distinct (map fst p)"
    by (auto simp: map_of_eq_None_iff)
  from Cons.IH [OF dist, of "AList.update k0 v0 al"] obtain al'
    where al': "apply_kids (leaves p) (AList.update k0 v0 al) = Inr al'"
      "\<forall>k. map_of al' k = (case map_of p k of Some v \<Rightarrow> Some v | None \<Rightarrow> map_of (AList.update k0 v0 al) k)"
    by blast
  have "apply_kids (leaves (x # p)) al = Inr al'"
    using al'(1) x by (simp add: leaves_def)
  moreover have "\<forall>k. map_of al' k
      = (case map_of (x # p) k of Some v \<Rightarrow> Some v | None \<Rightarrow> map_of al k)"
    using al'(2) fresh x by (auto simp: update_conv' split: option.splits)
  ultimately show ?case by blast
qed

lemma leaves_keys: "map_of (leaves p) k = None \<longleftrightarrow> k \<notin> fst ` set p"
  by (induction p) (auto simp: leaves_def)

lemma find_one_None_iff: "find_one docs oid = None \<longleftrightarrow> oid \<notin> ident ` set docs"
  by (induction docs) (auto simp: find_one_def)

lemma find_one_ident: "find_one docs oid = Some d \<Longrightarrow> ident d = oid"
  by (induction docs) (auto simp: find_one_def split: if_splits)

lemma update_first_absent: "find_one docs oid = None \<Longrightarrow> update_first docs oid t = Inr (0, docs)"
  by (induction docs) (auto simp: find_one_def split: if_splits)

lemma update_first_present:
  "find_one docs oid = Some d \<Longrightarrow> apply_update t (fields d) = Inr f \<Longrightarrow>
   \<exists>n < length docs. docs ! n = d \<and> (\<forall>m < n. ident (docs ! m) \<noteq> oid)
     \<and> update_first docs oid t = Inr (1, docs[n := Document oid f])"
proof (induction docs)
  case Nil
  then show ?case by (simp add: find_one_def)
next
  case (Cons x docs)
  show ?case
  proof (cases "ident x = oid")
    case True
    with Cons.prems have "x = d" by (simp add: find_one_def)
    with True Cons.prems(2) show ?thesis by (intro exI [of _ 0]) simp
  next
    case False
    with Cons.prems have "find_one docs oid = Some d" by (simp add: find_one_def)
    from Cons.IH [OF this Cons.prems(2)] obtain n where n: "n < length docs" "docs ! n = d"
      "\<forall>m < n. ident (docs ! m) \<noteq> oid"
      "update_first docs oid t = Inr (1, docs[n := Document oid f])" by blast
    have "\<forall>m < Suc n. ident ((x # docs) ! m) \<noteq> oid"
      using n(3) False by (auto simp: nth_Cons split: nat.splits)
    with n False show ?thesis by (intro exI [of _ "Suc n"]) simp
  qed
qed

lemma find_one_replaced:
  "n < length docs \<Longrightarrow> \<forall>m < n. ident (docs ! m) \<noteq> oid \<Longrightarrow>
   find_one (docs[n := Document oid f]) oid = Some (Document oid f)"
proof (induction docs arbitrary: n)
  case Nil
  then show ?case by simp
next
  case (Cons x docs)
  show ?case
  proof (cases n)
    case 0
    then show ?thesis by (simp add: find_one_def)
  next
    case (Suc k)
    with Cons.prems have k: "k < length docs" "\<forall>m < k. ident (docs ! m) \<noteq> oid" "ident x \<noteq> oid"
      by auto
    from Cons.IH [OF k(1,2)] k(3) Suc show ?thesis by (simp add: find_one_def)
  qed
qed

lemma encode_stamped:
  "encode_error_dict p = None \<Longrightarrow> CHR 0x00 \<notin> set k \<Longrightarrow>
   encode_error_dict (AList.update k (PDatetime t) p) = None"
  by (induction p) (auto split: if_splits option.splits)

lemma plain_updated_at: "plain_key ''updated_at''"
  by (simp add: plain_key_def)

lemma plain_stamped:
  assumes "plain_payload p"
  shows "plain_payload (AList.update ''updated_at'' (PDatetime t) p)"
proof -
  from assms have keys: "list_all plain_key (map fst p)" and dist: "distinct (map fst p)"
    and enc: "encode_error_dict p = None"
    by (simp_all add: plain_payload_def)
  have "set (map fst (AList.update ''updated_at'' (PDatetime t) p)) = {''updated_at''} \<union> set (map fst p)"
    using dom_update [of "''updated_at''" "PDatetime t" p] by simp
  with keys have "list_all plain_key (map fst (AList.update ''updated_at'' (PDatetime t) p))"
    by (simp add: list_all_iff plain_updated_at)
  moreover have "distinct (map fst (AList.update ''updated_at'' (PDatetime t) p))"
    using dist by (rule distinct_update)
  moreover have "encode_error_dict (AList.update ''updated_at'' (PDatetime t) p) = None"
    using enc by (rule encode_stamped) simp
  ultimately show ?thesis by (simp add: plain_payload_def)
qed

lemma plain_update_one:
  assumes "plain_payload s" and "s \<noteq> []"
  shows "update_one docs oid s = update_first docs oid (Node (leaves s))"
  using assms build_plain [of s] by (simp add: update_one_def plain_payload_def)

lemma plain_apply_update:
  assumes "plain_payload s"
  shows "\<exists>f'. apply_update (Node (leaves s)) f = Inr f'
           \<and> (\<forall>k. map_of f' k = (case map_of s k of Some v \<Rightarrow> Some v | None \<Rightarrow> map_of f k))"
proof -
  from assms have keys: "list_all plain_key (map fst s)" and dist: "distinct (map fst s)"
    by (simp_all add: plain_payload_def)
  have "''_id'' \<notin> fst ` set s"
    using keys by (auto simp: list_all_iff plain_key_def)
  then have "map_of (leaves s) ''_id'' = None" by (simp add: leaves_keys)
  with apply_kids_leaves [OF dist, of f] show ?thesis by simp
qed

text \<open>
  Claim C5, as amended. For an update with a valid admin token, a recognised
  collection, a valid identifier and a plain payload (a dictionary of whole top-level
  field names, none of them empty, dotted, starting with \<open>$\<close> or equal to \<open>_id\<close>, with
  values the driver can encode): if no record has the identifier, the answer is 404
  "Not found" and the store is unchanged; if record \<open>d\<close> has it, the store changes only
  at the place of \<open>d\<close>, where the new record \<open>d'\<close> keeps the identifier, holds the call's
  time in \<open>updated_at\<close>, the payload's value in every other field the payload names, and
  the value of \<open>d\<close> in every field it does not name; the answer is \<open>d'\<close> as \<open>to_obj\<close>
  renders it.
\<close>

theorem update_merges_fields:
  assumes "require_admin tok a = Inr True"
    and "c \<in> {''setting'', ''about'', ''news'', ''film'', ''production'', ''partner'', ''application''}"
    and "PyObjectId_validate i = Inr oid"
    and "plain_payload p"
  shows "(find_one (db1 c) oid = None \<longrightarrow>
            update tok a c i p now db1 = (Inl (HTTPException 404 ''Not found''), db1))
         \<and> (find_one (db2 c) oid = Some d \<longrightarrow>
            (\<exists>n < length (db2 c). \<exists>d'.
               db2 c ! n = d \<and> ident d' = ident d
               \<and> (\<forall>k. map_of (fields d') k =
                     (if k = ''updated_at'' then Some (PDatetime now)
                      else case map_of p k of Some v \<Rightarrow> Some v | None \<Rightarrow> map_of (fields d) k))
               \<and> update tok a c i p now db2 = (Inr (to_obj (Some d')), db2(c := (db2 c)[n := d']))))"
proof -
  let ?s = "AList.update ''updated_at'' (PDatetime now) p"
  from assms(2) have "map_of COLLECTIONS c \<noteq> None" by (simp add: recognized_iff)
  then have coll: "\<And>db. get_collection c db = Inr (db c)" by (rule get_collection_known)
  have plain: "plain_payload ?s" using assms(4) by (rule plain_stamped)
  have run: "\<And>docs. update_one docs oid ?s = update_first docs oid (Node (leaves ?s))"
    using plain by (rule plain_update_one) simp
  have absent: "update tok a c i p now db1 = (Inl (HTTPException 404 ''Not found''), db1)"
    if "find_one (db1 c) oid = None"
    using update_first_absent [OF that, of "Node (leaves ?s)"]
    by (simp add: update_def assms(1,3) coll run)
  have present: "\<exists>n < length (db2 c). \<exists>d'.
               db2 c ! n = d \<and> ident d' = ident d
               \<and> (\<forall>k. map_of (fields d') k =
                     (if k = ''updated_at'' then Some (PDatetime now)
                      else case map_of p k of Some v \<Rightarrow> Some v | None \<Rightarrow> map_of (fields d) k))
               \<and> update tok a c i p now db2 = (Inr (to_obj (Some d')), db2(c := (db2 c)[n := d']))"
    if found: "find_one (db2 c) oid = Some d"
  proof -
    from plain_apply_update [OF plain, of "fields d"] obtain f'
      where f': "apply_update (Node (leaves ?s)) (fields d) = Inr f'"
        "\<forall>k. map_of f' k = (case map_of ?s k of Some v \<Rightarrow> Some v | None \<Rightarrow> map_of (fields d) k)"
      by blast
    from update_first_present [OF found f'(1)] obtain n where n: "n < length (db2 c)"
      "db2 c ! n = d" "\<forall>m < n. ident (db2 c ! m) \<noteq> oid"
      "update_first (db2 c) oid (Node (leaves ?s)) = Inr (1, (db2 c)[n := Document oid f'])"
      by blast
    let ?d' = "Document oid f'"
    have again: "find_one ((db2 c)[n := ?d']) oid = Some ?d'"
      using n(1,3) by (rule find_one_replaced)
    have "update tok a c i p now db2 = (Inr (to_obj (Some ?d')), db2(c := (db2 c)[n := ?d']))"
      using n(4) again by (simp add: update_def assms(1,3) coll run)
    moreover have "ident ?d' = ident d"
      using find_one_ident [OF found] by simp
    moreover have "\<forall>k. map_of (fields ?d') k =
        (if k = ''updated_at'' then Some (PDatetime now)
         else case map_of p k of Some v \<Rightarrow> Some v | None \<Rightarrow> map_of (fields d) k)"
      using f'(2) by (simp add: update_conv')
    ultimately show ?thesis using n(1,2) by blast
  qed
  from absent present show ?thesis by blast
qed

lemma plain_example: "plain_payload [(''title'', PStr ''New'')]"
  by (simp add: plain_payload_def plain_key_def)

theorem update_merges_fields_witness:
  "update ''s3cret'' (Some ''Bearer s3cret'') ''news'' ''0123456789abcdef01234567''
      [(''title'', PStr ''New'')] 7 (\<lambda>c. [])
     = (Inl (HTTPException 404 ''Not found''), (\<lambda>c. []))
   \<and> (\<exists>d'. ident d' = ObjectId ''0123456789abcdef01234567''
         \<and> map_of (fields d') ''title'' = Some (PStr ''New'')
         \<and> map_of (fields d') ''content'' = Some (PStr ''Hello'')
         \<and> map_of (fields d') ''updated_at'' = Some (PDatetime 7)
         \<and> update ''s3cret'' (Some ''Bearer s3cret'') ''news'' ''0123456789abcdef01234567''
              [(''title'', PStr ''New'')] 7
              ((\<lambda>c. [])(''news'' := [Document (ObjectId ''0123456789abcdef01234567'')
                 [(''title'', PStr ''Old''), (''content'', PStr ''Hello'')]]))
            = (Inr (to_obj (Some d')), (\<lambda>c. [])(''news'' := [d'])))"
proof -
  let ?oid = "ObjectId ''0123456789abcdef01234567''"
  let ?d = "Document ?oid [(''title'', PStr ''Old''), (''content'', PStr ''Hello'')]"
  let ?db2 = "(\<lambda>c. [])(''news'' := [?d])"
  let ?p = "[(''title'', PStr ''New'')]"
  have c: "''news'' \<in> {''setting'', ''about'', ''news'', ''film'', ''production'', ''partner'', ''application''}"
    by simp
  note inst = update_merges_fields [where tok = "''s3cret''" and a = "Some ''Bearer s3cret''"
      and c = "''news''" and i = "''0123456789abcdef01234567''" and p = ?p and oid = ?oid
      and ?db1.0 = "\<lambda>c. []" and now = 7 and ?db2.0 = ?db2 and d = ?d,
      OF auth_s3cret c validate_example plain_example]
  have absent: "find_one ((\<lambda>c. []) ''news'') ?oid = None"
    by (simp add: find_one_def)
  have present: "find_one (?db2 ''news'') ?oid = Some ?d"
    by (simp add: find_one_def)
  from inst absent have first: "update ''s3cret'' (Some ''Bearer s3cret'') ''news'' ''0123456789abcdef01234567''
      ?p 7 (\<lambda>c. []) = (Inl (HTTPException 404 ''Not found''), (\<lambda>c. []))"
    by blast
  from inst present obtain n d' where n: "n < length (?db2 ''news'')" "ident d' = ident ?d"
    "\<forall>k. map_of (fields d') k = (if k = ''updated_at'' then Some (PDatetime 7)
        else case map_of ?p k of Some v \<Rightarrow> Some v | None \<Rightarrow> map_of (fields ?d) k)"
    "update ''s3cret'' (Some ''Bearer s3cret'') ''news'' ''0123456789abcdef01234567''
       ?p 7 ?db2 = (Inr (to_obj (Some d')), ?db2(''news'' := (?db2 ''news'')[n := d']))"
    by blast
  from n(1) have "n = 0" by simp
  with n(4) have upd: "update ''s3cret'' (Some ''Bearer s3cret'') ''news'' ''0123456789abcdef01234567''
       ?p 7 ?db2 = (Inr (to_obj (Some d')), (\<lambda>c. [])(''news'' := [d']))"
    by simp
  have "map_of (fields d') ''title'' = Some (PStr ''New'')"
    "map_of (fields d') ''content'' = Some (PStr ''Hello'')"
    "map_of (fields d') ''updated_at'' = Some (PDatetime 7)"
    using n(3) by simp_all
  with first upd n(2) show ?thesis by auto
qed

text \<open>
  The claim as stated fails for payloads that are not plain. The payload
  \<open>{"meta.x": 1}\<close> names the path \<open>x\<close> below \<open>meta\<close>: the field \<open>meta\<close>, which the payload
  does not name as a field, changes, and no field \<open>meta.x\<close> appears. The payload
  \<open>{"_id": "other"}\<close> is refused by the store, as is a key that starts with \<open>$\<close>, and an
  integer of more than eight bytes is refused by the driver: no field takes the
  supplied value.
\<close>

theorem update_merges_fields_counterexample:
  "fst (update ''s3cret'' (Some ''Bearer s3cret'') ''news'' ''0123456789abcdef01234567''
          [(''meta.x'', PInt 1)] 7
          ((\<lambda>c. [])(''news'' := [Document (ObjectId ''0123456789abcdef01234567'')
             [(''meta'', PDict [(''y'', PInt 2)])]])))
     = Inr (Some [(''meta'', PDict [(''y'', PInt 2), (''x'', PInt 1)]),
                  (''updated_at'', PDatetime 7),
                  (''id'', PStr ''0123456789abcdef01234567'')])
   \<and> snd (update ''s3cret'' (Some ''Bearer s3cret'') ''news'' ''0123456789abcdef01234567''
          [(''meta.x'', PInt 1)] 7
          ((\<lambda>c. [])(''news'' := [Document (ObjectId ''0123456789abcdef01234567'')
             [(''meta'', PDict [(''y'', PInt 2)])]]))) ''news''
     = [Document (ObjectId ''0123456789abcdef01234567'')
          [(''meta'', PDict [(''y'', PInt 2), (''x'', PInt 1)]), (''updated_at'', PDatetime 7)]]
   \<and> map_of [(''meta'', PDict [(''y'', PInt 2), (''x'', PInt 1)]), (''updated_at'', PDatetime 7)]
        ''meta.x'' = None
   \<and> fst (update ''s3cret'' (Some ''Bearer s3cret'') ''news'' ''0123456789abcdef01234567''
          [(''_id'', PStr ''other'')] 7
          ((\<lambda>c. [])(''news'' := [Document (ObjectId ''0123456789abcdef01234567'')
             [(''title'', PStr ''Old'')]])))
     = Inl (WriteError ''immutable field _id'')
   \<and> fst (update ''s3cret'' (Some ''Bearer s3cret'') ''news'' ''0123456789abcdef01234567''
          [(''$title'', PStr ''New'')] 7
          ((\<lambda>c. [])(''news'' := [Document (ObjectId ''0123456789abcdef01234567'')
             [(''title'', PStr ''Old'')]])))
     = Inl (WriteError ''invalid update path'')
   \<and> fst (update ''s3cret'' (Some ''Bearer s3cret'') ''news'' ''0123456789abcdef01234567''
          [(''order'', PInt 9223372036854775808)] 7
          ((\<lambda>c. [])(''news'' := [Document (ObjectId ''0123456789abcdef01234567'')
             [(''title'', PStr ''Old'')]])))
     = Inl (OverflowError ''MongoDB can only handle up to 8-byte ints'')"
  by code_simp

section \<open>Updating twice\<close>

text \<open>
  Claim C6, as amended. Applying the same update twice in succession leaves the store
  that applying it once at the time of the second call leaves: every field is as after
  one update, except \<open>updated_at\<close>, which holds the time of the last call.
\<close>

theorem update_twice_as_once_later:
  "snd (update tok a c i p now2 (snd (update tok a c i p now1 db)))
     = snd (update tok a c i p now2 db)"
proof (cases "require_admin tok a")
  case (Inl e)
  then show ?thesis by (simp add: update_def)
next
  case auth: (Inr ok)
  show ?thesis
  proof (cases "map_of COLLECTIONS c = None")
    case True
    then show ?thesis by (simp add: update_def auth get_collection_def)
  next
    case known: False
    then have coll: "\<And>db. get_collection c db = Inr (db c)" by (rule get_collection_known)
    show ?thesis
    proof (cases "PyObjectId_validate i")
      case (Inl e)
      then show ?thesis by (simp add: update_def auth coll)
    next
      case oid: (Inr oid)
      let ?s1 = "AList.update ''updated_at'' (PDatetime now1) p"
      let ?s2 = "AList.update ''updated_at'' (PDatetime now2) p"
      show ?thesis
      proof (cases "update_one (db c) oid ?s1")
        case (Inl e)
        then show ?thesis by (simp add: update_def auth coll oid)
      next
        case (Inr r)
        obtain m docs1 where r: "r = (m, docs1)" by (cases r)
        have first: "snd (update tok a c i p now1 db) = db(c := docs1)"
          using Inr r by (simp add: update_def auth coll oid)
        from update_one_again [of "db c" oid "''updated_at''" now1 p m docs1 now2] Inr r
        obtain docs2 where second: "update_one (db c) oid ?s2 = Inr (m, docs2)"
          "update_one docs1 oid ?s2 = Inr (m, docs2)"
          by auto
        show ?thesis
          unfolding first
          by (simp add: update_def auth coll oid second)
      qed
    qed
  qed
qed

text \<open>
  The claim as stated fails: the record after two updates, at times 1 and 2, differs
  in \<open>updated_at\<close> from the record after the first update alone.
\<close>

theorem update_twice_counterexample:
  "snd (update ''s3cret'' (Some ''Bearer s3cret'') ''news'' ''0123456789abcdef01234567''
          [(''title'', PStr ''New'')] 2
          (snd (update ''s3cret'' (Some ''Bearer s3cret'') ''news'' ''0123456789abcdef01234567''
                  [(''title'', PStr ''New'')] 1
                  ((\<lambda>c. [])(''news'' := [Document (ObjectId ''0123456789abcdef01234567'')
                     [(''title'', PStr ''Old'')]]))))) ''news''
     = [Document (ObjectId ''0123456789abcdef01234567'')
          [(''title'', PStr ''New''), (''updated_at'', PDatetime 2)]]
   \<and> snd (update ''s3cret'' (Some ''Bearer s3cret'') ''news'' ''0123456789abcdef01234567''
          [(''title'', PStr ''New'')] 1
          ((\<lambda>c. [])(''news'' := [Document (ObjectId ''0123456789abcdef01234567'')
             [(''title'', PStr ''Old'')]]))) ''news''
     = [Document (ObjectId ''0123456789abcdef01234567'')
          [(''title'', PStr ''New''), (''updated_at'', PDatetime 1)]]
   \<and> map_of [(''title'', PStr ''New''), (''updated_at'', PDatetime 2)] ''updated_at''
       \<noteq> map_of [(''title'', PStr ''New''), (''updated_at'', PDatetime 1)] ''updated_at''"
  by code_simp

section \<open>Create, then read\<close>

lemma find_one_appended:
  "find_one docs oid = None \<Longrightarrow> find_one (docs @ [Document oid f]) oid = Some (Document oid f)"
  by (induction docs) (auto simp: find_one_def split: if_splits)

text \<open>
  Claim C7, as amended. For a recognised collection, a valid admin token and a record
  \<open>r\<close>, when the store assigns an identifier that is well-formed and not yet in the
  collection, \<open>create\<close> answers that identifier and a following \<open>get_document\<close> with it
  answers \<open>r\<close> with the field \<open>id\<close> set to the identifier (in place of a field \<open>id\<close> or
  \<open>_id\<close> of \<open>r\<close>, if it had one); no default of the request model is filled in.
\<close>

theorem create_then_get:
  assumes "require_admin tok a = Inr True"
    and "c \<in> {''setting'', ''about'', ''news'', ''film'', ''production'', ''partner'', ''application''}"
    and "canonical new_id"
    and "find_one (db c) new_id = None"
  shows "fst (create tok a c r new_id db) = Inr [(''id'', PStr (str_oid new_id))]
         \<and> get_document c (str_oid new_id) (snd (create tok a c r new_id db))
             = Inr (Some (AList.update ''id'' (PStr (str_oid new_id)) (AList.delete ''_id'' r)))"
proof -
  from assms(2) have "map_of COLLECTIONS c \<noteq> None" by (simp add: recognized_iff)
  then have coll: "\<And>db. get_collection c db = Inr (db c)" by (rule get_collection_known)
  have made: "create tok a c r new_id db =
      (Inr [(''id'', PStr (str_oid new_id))],
       db(c := db c @ [Document new_id (AList.delete ''_id'' r)]))"
    by (simp add: create_def assms(1) coll create_document_def)
  have "find_one (db c @ [Document new_id (AList.delete ''_id'' r)]) new_id
      = Some (Document new_id (AList.delete ''_id'' r))"
    using assms(4) by (rule find_one_appended)
  then show ?thesis
    by (simp add: made get_document_def coll validate_canonical [OF assms(3)] delete_idem)
qed

theorem create_then_get_witness:
  "fst (create ''s3cret'' (Some ''Bearer s3cret'') ''partner''
          [(''name'', PStr ''Acme''), (''id'', PInt 5)]
          (ObjectId ''0123456789abcdef01234567'') (\<lambda>c. []))
     = Inr [(''id'', PStr ''0123456789abcdef01234567'')]
   \<and> get_document ''partner'' ''0123456789abcdef01234567''
        (snd (create ''s3cret'' (Some ''Bearer s3cret'') ''partner''
                [(''name'', PStr ''Acme''), (''id'', PInt 5)]
                (ObjectId ''0123456789abcdef01234567'') (\<lambda>c. [])))
     = Inr (Some [(''name'', PStr ''Acme''), (''id'', PStr ''0123456789abcdef01234567'')])"
proof -
  have c: "''partner'' \<in> {''setting'', ''about'', ''news'', ''film'', ''production'', ''partner'', ''application''}"
    by simp
  have fresh: "find_one ((\<lambda>c. []) ''partner'') (ObjectId ''0123456789abcdef01234567'') = None"
    by (simp add: find_one_def)
  from create_then_get [where tok = "''s3cret''" and a = "Some ''Bearer s3cret''" and c = "''partner''"
      and new_id = "ObjectId ''0123456789abcdef01234567''" and db = "\<lambda>c. []"
      and r = "[(''name'', PStr ''Acme''), (''id'', PInt 5)]", OF auth_s3cret c canonical_example fresh]
  show ?thesis by simp
qed

text \<open>
  The claim as stated fails: the news item created with only title and content is
  read back without the field \<open>featured\<close>, whose declared default is \<open>False\<close>.
\<close>

theorem create_then_get_counterexample:
  "(''featured'', PBool False) \<in> set (default_fields NewsItem)
   \<and> get_document ''news'' ''0123456789abcdef01234567''
        (snd (create ''s3cret'' (Some ''Bearer s3cret'') ''news''
                [(''title'', PStr ''Launch''), (''content'', PStr ''Hello'')]
                (ObjectId ''0123456789abcdef01234567'') (\<lambda>c. [])))
      = Inr (Some [(''title'', PStr ''Launch''), (''content'', PStr ''Hello''),
                   (''id'', PStr ''0123456789abcdef01234567'')])
   \<and> map_of [(''title'', PStr ''Launch''), (''content'', PStr ''Hello''),
        (''id'', PStr ''0123456789abcdef01234567'')] ''featured'' = None"
  by code_simp

section \<open>Delete\<close>

lemma delete_one_absent: "find_one docs oid = None \<Longrightarrow> delete_one docs oid = (0, docs)"
  by (induction docs) (auto simp: find_one_def split: if_splits)

lemma delete_one_present:
  "find_one docs oid \<noteq> None \<Longrightarrow> fst (delete_one docs oid) = 1"
  by (induction docs) (auto simp: find_one_def split: prod.splits)

lemma delete_one_idents:
  "set (map ident (snd (delete_one docs oid))) \<subseteq> set (map ident docs)"
proof (induction docs)
  case Nil
  then show ?case by simp
next
  case (Cons x docs)
  obtain n ds where r: "delete_one docs oid = (n, ds)" by (cases "delete_one docs oid")
  with Cons show ?case by auto
qed

lemma delete_one_gone:
  "distinct (map ident docs) \<Longrightarrow> find_one (snd (delete_one docs oid)) oid = None"
proof (induction docs)
  case Nil
  then show ?case by (simp add: find_one_def)
next
  case (Cons x docs)
  show ?case
  proof (cases "ident x = oid")
    case True
    with Cons.prems have "oid \<notin> ident ` set docs" by auto
    with True show ?thesis by (simp add: find_one_None_iff)
  next
    case False
    with Cons show ?thesis by (auto simp: find_one_def split: prod.splits)
  qed
qed

text \<open>
  Claim C8. For a recognised collection whose identifiers are distinct, a valid admin
  token and a valid identifier that names a record in it, \<open>delete\<close> answers
  \<open>{status: "deleted", id}\<close> with the identifier as it was given; after it,
  \<open>get_document\<close> with the same identifier answers 404 "Not found", and a second
  \<open>delete\<close> answers 404 "Not found" and leaves the store as it is.
\<close>

theorem delete_then_gone:
  assumes "require_admin tok a = Inr True"
    and "c \<in> {''setting'', ''about'', ''news'', ''film'', ''production'', ''partner'', ''application''}"
    and "PyObjectId_validate i = Inr oid"
    and "find_one (db c) oid \<noteq> None"
    and "distinct (map ident (db c))"
  shows "fst (delete tok a c i db) = Inr [(''status'', PStr ''deleted''), (''id'', PStr i)]
         \<and> get_document c i (snd (delete tok a c i db)) = Inl (HTTPException 404 ''Not found'')
         \<and> delete tok a c i (snd (delete tok a c i db))
             = (Inl (HTTPException 404 ''Not found''), snd (delete tok a c i db))"
proof -
  let ?left = "snd (delete_one (db c) oid)"
  from assms(2) have "map_of COLLECTIONS c \<noteq> None" by (simp add: recognized_iff)
  then have coll: "\<And>db. get_collection c db = Inr (db c)" by (rule get_collection_known)
  note oid = assms(3)
  have count: "fst (delete_one (db c) oid) = 1"
    using assms(4) by (rule delete_one_present)
  obtain ds where ds: "delete_one (db c) oid = (1, ds)"
    using count by (cases "delete_one (db c) oid") auto
  have first: "delete tok a c i db
      = (Inr [(''status'', PStr ''deleted''), (''id'', PStr i)], db(c := ?left))"
    by (simp add: delete_def assms(1) coll oid ds)
  have gone: "find_one ?left oid = None"
    using assms(5) by (rule delete_one_gone)
  have get: "get_document c i (db(c := ?left)) = Inl (HTTPException 404 ''Not found'')"
    by (simp add: get_document_def coll oid gone)
  have again: "delete tok a c i (db(c := ?left))
      = (Inl (HTTPException 404 ''Not found''), db(c := ?left))"
    using delete_one_absent [OF gone] by (simp add: delete_def assms(1) coll oid)
  show ?thesis by (simp add: first get again)
qed

theorem delete_then_gone_witness:
  "fst (delete ''s3cret'' (Some ''Bearer s3cret'') ''film'' ''0123456789abcdef01234567''
          ((\<lambda>c. [])(''film'' := [Document (ObjectId ''0123456789abcdef01234567'') [(''title'', PStr ''Up'')]])))
     = Inr [(''status'', PStr ''deleted''), (''id'', PStr ''0123456789abcdef01234567'')]
   \<and> snd (delete ''s3cret'' (Some ''Bearer s3cret'') ''film'' ''0123456789abcdef01234567''
          ((\<lambda>c. [])(''film'' := [Document (ObjectId ''0123456789abcdef01234567'') [(''title'', PStr ''Up'')]])))
        ''film'' = []
   \<and> get_document ''film'' ''0123456789abcdef01234567''
        (snd (delete ''s3cret'' (Some ''Bearer s3cret'') ''film'' ''0123456789abcdef01234567''
          ((\<lambda>c. [])(''film'' := [Document (ObjectId ''0123456789abcdef01234567'') [(''title'', PStr ''Up'')]]))))
     = Inl (HTTPException 404 ''Not found'')
   \<and> fst (delete ''s3cret'' (Some ''Bearer s3cret'') ''film'' ''0123456789abcdef01234567''
        (snd (delete ''s3cret'' (Some ''Bearer s3cret'') ''film'' ''0123456789abcdef01234567''
          ((\<lambda>c. [])(''film'' := [Document (ObjectId ''0123456789abcdef01234567'') [(''title'', PStr ''Up'')]])))))
     = Inl (HTTPException 404 ''Not found'')"
proof -
  let ?oid = "ObjectId ''0123456789abcdef01234567''"
  let ?db = "(\<lambda>c. [])(''film'' := [Document ?oid [(''title'', PStr ''Up'')]])"
  have c: "''film'' \<in> {''setting'', ''about'', ''news'', ''film'', ''production'', ''partner'', ''application''}"
    by simp
  have found: "find_one (?db ''film'') ?oid \<noteq> None"
    by (simp add: find_one_def)
  have uniq: "distinct (map ident (?db ''film''))" by simp
  have left: "snd (delete ''s3cret'' (Some ''Bearer s3cret'') ''film'' ''0123456789abcdef01234567'' ?db) ''film'' = []"
    by (simp add: delete_def auth_s3cret get_collection_def film_recognized validate_example)
  from delete_then_gone [where tok = "''s3cret''" and a = "Some ''Bearer s3cret''" and c = "''film''"
      and i = "''0123456789abcdef01234567''" and db = ?db and oid = ?oid,
      OF auth_s3cret c validate_example found uniq] left
  show ?thesis by simp
qed

section \<open>Routes for update\<close>

text \<open>
  Claim C9. A PUT and a PATCH with the same path, headers, body and surroundings are
  served alike: the same answer and the same store afterwards.
\<close>

theorem put_patch_same:
  "serve tok now new_id (Request PUT c i a p l) db = serve tok now new_id (Request PATCH c i a p l) db"
  by (cases i) simp_all

section \<open>Distinct identifiers are preserved\<close>

text \<open>
  The writes keep the identifiers of a collection distinct, provided the store assigns
  an identifier that is not yet in the collection.
\<close>

lemma create_keeps_distinct:
  "distinct (map ident (db c)) \<Longrightarrow> find_one (db c) new_id = None \<Longrightarrow>
   distinct (map ident (snd (create_document c r new_id db) c))"
  by (simp add: create_document_def find_one_None_iff)

lemma update_first_idents:
  "update_first docs oid t = Inr (m, docs') \<Longrightarrow> map ident docs' = map ident docs"
  by (induction docs arbitrary: m docs') (auto split: if_splits sum.splits prod.splits)

lemma update_one_idents:
  "update_one docs oid s = Inr (m, docs') \<Longrightarrow> map ident docs' = map ident docs"
  by (auto simp: update_one_def update_first_idents split: option.splits sum.splits)

lemma delete_one_keeps_distinct:
  "distinct (map ident docs) \<Longrightarrow> distinct (map ident (snd (delete_one docs oid)))"
proof (induction docs)
  case Nil
  then show ?case by simp
next
  case (Cons x docs)
  have "ident x \<notin> set (map ident (snd (delete_one docs oid)))"
    using delete_one_idents [of docs oid] Cons.prems by auto
  with Cons show ?case by (auto split: prod.splits)
qed

end
